theory Spec2Isabelle
  imports Complex_Main "HOL-Library.AList"
begin

section \<open>Neon Puck: the simulation loop of src/main.js\<close>

text \<open>
  JavaScript numbers are modelled as real numbers. An operation whose JavaScript result
  is not a finite number (a division by zero gives NaN or Infinity) is an error value
  \<open>Inl NonFinite\<close>; reading a field of \<open>undefined\<close> (an array index out of range)
  is \<open>Inl TypeError\<close>. JavaScript goes on computing with NaN where the model stops, so
  a statement about a frame or a run that returns \<open>Inr\<close> is about a frame or a run in
  which every number is finite. Rounding and overflow of IEEE doubles are modelled where
  the specification states an exact value, in the release of a drag (\<open>handleEnd\<close>, by
  the rounding function \<open>fl\<close> below); the physics of a frame is computed over the reals.
\<close>

subsection \<open>Game constants\<close>

definition PUCK_RADIUS :: real where "PUCK_RADIUS = 15"
definition HOLE_WIDTH :: real where "HOLE_WIDTH = 100"
definition WALL_THICKNESS :: real where "WALL_THICKNESS = 20"
definition FRICTION :: real where "FRICTION = 995 / 1000"
definition BOUNCE_DAMPING :: real where "BOUNCE_DAMPING = 9 / 10"
definition MAX_SPEED :: real where "MAX_SPEED = 50"
definition DRAG_FORCE :: real where "DRAG_FORCE = 30 / 100"

subsection \<open>Data model\<close>

datatype error = NonFinite | TypeError

datatype side = Top | Bottom

datatype gameState = Start | Playing | Won

text \<open>The key of \<open>activeTouches\<close>: the string \<open>'mouse'\<close> or a touch identifier.\<close>

datatype pointerId = Mouse | TouchId int

record puck =
  puck_id :: nat
  puck_x :: real
  puck_y :: real
  puck_vx :: real
  puck_vy :: real
  puck_color :: string

record touch =
  puckIndex :: nat
  startX :: real
  startY :: real
  currentX :: real
  currentY :: real
  anchor :: "(real \<times> real) option"
  side :: side

record segment =
  seg_start :: real
  seg_end :: real

record obstacle =
  obs_x :: real
  obs_y :: real
  obs_radius :: real

text \<open>
  The module-level variables of main.js. \<open>activeTouches\<close> is a JavaScript Map: an
  association list in insertion order. \<open>GAP_OFFSET\<close> is computed once at load time from
  the client width, so it is a field here.
\<close>

record game =
  gameState :: gameState
  winner :: "side option"
  pucks :: "puck list"
  activeTouches :: "(pointerId \<times> touch) list"
  winTimestamp :: "int option"
  width :: real
  height :: real
  topWins :: nat
  bottomWins :: nat
  currentLevel :: nat
  GAP_OFFSET :: real

subsection \<open>Checked division and sequencing of fallible steps\<close>

definition jsdiv :: "real \<Rightarrow> real \<Rightarrow> error + real" where
  "jsdiv a b = (if b = 0 then Inl NonFinite else Inr (a / b))"

text \<open>\<open>xs.forEach(f)\<close> over a callback that mutates one value, stopping at an error.\<close>

fun foldE :: "('a \<Rightarrow> 'b \<Rightarrow> error + 'b) \<Rightarrow> 'a list \<Rightarrow> 'b \<Rightarrow> error + 'b" where
  "foldE f [] s = Inr s"
| "foldE f (a # as) s = (case f a s of Inl e \<Rightarrow> Inl e | Inr s' \<Rightarrow> foldE f as s')"

text \<open>\<open>thenE m f\<close> continues with the value of \<open>m\<close>, or stops at its error.\<close>

definition thenE :: "error + 'a \<Rightarrow> ('a \<Rightarrow> error + 'b) \<Rightarrow> error + 'b" where
  "thenE m f = (case m of Inl e \<Rightarrow> Inl e | Inr x \<Rightarrow> f x)"

subsection \<open>Rounding to IEEE 754 binary64\<close>

text \<open>
  A JavaScript arithmetic operation returns the double nearest to the exact result, ties
  to the even significand. \<open>ulpExp x\<close> is the exponent of the spacing of the doubles around
  \<open>x\<close>: 52 below the binary exponent of \<open>x\<close>, and \<open>-1074\<close> in the subnormal range.
  \<open>fl x\<close> is the double that the exact result \<open>x\<close> rounds to; past the largest double
  JavaScript gives Infinity, which is \<open>Inl NonFinite\<close> here. Signed zeros are not
  distinguished.
\<close>

definition DBL_MAX :: real where "DBL_MAX = (2 ^ 53 - 1) * 2 ^ 971"

definition roundEven :: "real \<Rightarrow> int" where
  "roundEven q =
     (let f = \<lfloor>q\<rfloor>; r = q - of_int f
      in if r < 1 / 2 then f
         else if 1 / 2 < r then f + 1
         else if even f then f else f + 1)"

definition ulpExp :: "real \<Rightarrow> int" where
  "ulpExp x = max (\<lfloor>log 2 \<bar>x\<bar>\<rfloor> - 52) (- 1074)"

definition fl :: "real \<Rightarrow> error + real" where
  "fl x =
     (if x = 0 then Inr 0
      else (let e = ulpExp x;
                y = of_int (roundEven (x / 2 powi e)) * 2 powi e
            in if DBL_MAX < \<bar>y\<bar> then Inl NonFinite else Inr y))"

subsection \<open>The session map\<close>

text \<open>The loop \<open>for (const touch of activeTouches.values()) if (touch.puckIndex === index)\<close>.\<close>

definition isDragged :: "(pointerId \<times> touch) list \<Rightarrow> nat \<Rightarrow> bool" where
  "isDragged ts index = list_ex (\<lambda>kv. puckIndex (snd kv) = index) ts"

definition has :: "(pointerId \<times> touch) list \<Rightarrow> pointerId \<Rightarrow> bool" where
  "has ts k = (map_of ts k \<noteq> None)"

subsection \<open>Geometry: getWallSegments and getObstacles (main.js lines 651-747)\<close>

text \<open>
  \<open>getOffset\<close> divides 375 by the width; the reading of the clock \<open>Date.now()\<close> is
  the parameter \<open>now\<close>, taken as constant during one frame.
\<close>

definition getOffset :: "real \<Rightarrow> int \<Rightarrow> real \<Rightarrow> real \<Rightarrow> real \<Rightarrow> error + real" where
  "getOffset W now speedFactor rangeFactor phase =
     (case jsdiv 375 W of
        Inl e \<Rightarrow> Inl e
      | Inr q \<Rightarrow>
         (let speed = (15 / 10000) * q * speedFactor;
              range = W * rangeFactor
          in Inr (sin (of_int now * speed + phase) * range)))"

definition getWallSegments :: "game \<Rightarrow> int \<Rightarrow> error + segment list" where
  "getWallSegments g now =
     (let level = currentLevel g + 1;
          center = width g / 2;
          halfHole = HOLE_WIDTH / 2
      in if level = 1 then
           Inr [\<lparr>seg_start = 0, seg_end = center - halfHole\<rparr>,
                \<lparr>seg_start = center + halfHole, seg_end = width g\<rparr>]
         else if level = 2 \<or> level = 5 then
           (case getOffset (width g) now 1 (22 / 100) 0 of
              Inl e \<Rightarrow> Inl e
            | Inr offset \<Rightarrow>
               Inr [\<lparr>seg_start = 0, seg_end = center + offset - halfHole\<rparr>,
                    \<lparr>seg_start = center + offset + halfHole, seg_end = width g\<rparr>])
         else if level = 3 then
           (let hole1Center = center - GAP_OFFSET g;
                hole2Center = center + GAP_OFFSET g
            in Inr [\<lparr>seg_start = 0, seg_end = hole1Center - halfHole\<rparr>,
                    \<lparr>seg_start = hole1Center + halfHole, seg_end = hole2Center - halfHole\<rparr>,
                    \<lparr>seg_start = hole2Center + halfHole, seg_end = width g\<rparr>])
         else if level = 4 \<or> level \<ge> 6 then
           (case getOffset (width g) now (35 / 100) (35 / 100) 0 of
              Inl e \<Rightarrow> Inl e
            | Inr offset1 \<Rightarrow>
               (case getOffset (width g) now (65 / 100) (35 / 100) pi of
                  Inl e \<Rightarrow> Inl e
                | Inr offset2 \<Rightarrow>
                   (let h1 = center + offset1;
                        h2 = center + offset2;
                        leftHole = min h1 h2;
                        rightHole = max h1 h2
                    in Inr [\<lparr>seg_start = 0, seg_end = leftHole - halfHole\<rparr>,
                            \<lparr>seg_start = leftHole + halfHole, seg_end = rightHole - halfHole\<rparr>,
                            \<lparr>seg_start = rightHole + halfHole, seg_end = width g\<rparr>])))
         else
           Inr [\<lparr>seg_start = 0, seg_end = center - halfHole\<rparr>,
                \<lparr>seg_start = center + halfHole, seg_end = width g\<rparr>])"

definition getObstacles :: "game \<Rightarrow> obstacle list" where
  "getObstacles g =
     (let level = currentLevel g + 1;
          radius = (WALL_THICKNESS / 2) * (13 / 10);
          center = width g / 2;
          topObsY = (height g / 2 + height g * (15 / 100)) / 2;
          bottomObsY = (height g / 2 + height g * (85 / 100)) / 2
      in if level = 5 \<or> level \<ge> 6 then
           [\<lparr>obs_x = center, obs_y = topObsY, obs_radius = radius\<rparr>,
            \<lparr>obs_x = center, obs_y = bottomObsY, obs_radius = radius\<rparr>]
         else [])"

text \<open>
  The later variant of \<open>getWallSegments\<close> (src/unnamed/part_003 lines 273-307): the two
  hole positions come from the parameter state of the frame, and segments that are not
  proper intervals are filtered out.
\<close>

record holeParam =
  baseOffset :: real
  offsetVal :: real

record paramState =
  hole0 :: holeParam
  hole1 :: holeParam
  obsScale :: real

definition getWallSegments_part003 :: "real \<Rightarrow> paramState option \<Rightarrow> segment list" where
  "getWallSegments_part003 W currentParamState =
     (case currentParamState of
        None \<Rightarrow> []
      | Some st \<Rightarrow>
         (let center = W / 2;
              halfHole = HOLE_WIDTH / 2;
              pos1 = center + baseOffset (hole0 st) + offsetVal (hole0 st);
              pos2 = center + baseOffset (hole1 st) + offsetVal (hole1 st);
              leftHole = min pos1 pos2;
              rightHole = max pos1 pos2;
              segments =
                [\<lparr>seg_start = 0, seg_end = leftHole - halfHole\<rparr>,
                 \<lparr>seg_start = leftHole + halfHole, seg_end = rightHole - halfHole\<rparr>,
                 \<lparr>seg_start = rightHole + halfHole, seg_end = W\<rparr>]
          in filter (\<lambda>s. seg_end s > seg_start s) segments))"

subsection \<open>checkCapCollision (main.js lines 291-314)\<close>


definition checkCapCollision :: "puck \<Rightarrow> real \<Rightarrow> real \<Rightarrow> real \<Rightarrow> error + puck" where
  "checkCapCollision p capX capY halfWallThick =
     (let dx = puck_x p - capX;
          dy = puck_y p - capY;
          dist = sqrt (dx * dx + dy * dy);
          radiusSum = halfWallThick + PUCK_RADIUS
      in if dist < radiusSum then
           (let safeDist = (if dist > 1 / 1000000 then dist else 1 / 1000000)
            in case jsdiv dx safeDist of
                 Inl e \<Rightarrow> Inl e
               | Inr nx \<Rightarrow>
                  (case jsdiv dy safeDist of
                     Inl e \<Rightarrow> Inl e
                   | Inr ny \<Rightarrow>
                      (let overlap = radiusSum - dist;
                           x1 = puck_x p + nx * overlap;
                           y1 = puck_y p + ny * overlap;
                           dp = puck_vx p * nx + puck_vy p * ny;
                           vx1 = puck_vx p - 2 * dp * nx;
                           vy1 = puck_vy p - 2 * dp * ny
                       in Inr (p\<lparr>puck_x := x1, puck_y := y1,
                                 puck_vx := vx1 * BOUNCE_DAMPING,
                                 puck_vy := vy1 * BOUNCE_DAMPING\<rparr>))))
         else Inr p)"

text \<open>Kinetic energy of a puck of mass 1.\<close>

definition kineticEnergy :: "puck \<Rightarrow> real" where
  "kineticEnergy p = (puck_vx p * puck_vx p + puck_vy p * puck_vy p) / 2"

subsection \<open>The physics of one sub-step (main.js lines 132-248)\<close>

text \<open>Movement: \<open>puck.x += puck.vx / steps\<close> with \<open>steps = 5\<close>.\<close>

definition steps :: nat where "steps = 5"

definition movePuck :: "puck \<Rightarrow> puck" where
  "movePuck p = p\<lparr>puck_x := puck_x p + puck_vx p / real steps,
                   puck_y := puck_y p + puck_vy p / real steps\<rparr>"

text \<open>The four arena edges, tested one after the other on the updated puck.\<close>

definition wallCollisions :: "real \<Rightarrow> real \<Rightarrow> puck \<Rightarrow> puck" where
  "wallCollisions W H p =
     (let p1 = (if puck_x p - PUCK_RADIUS < 0
                then p\<lparr>puck_x := PUCK_RADIUS, puck_vx := puck_vx p * (- BOUNCE_DAMPING)\<rparr>
                else p);
          p2 = (if puck_x p1 + PUCK_RADIUS > W
                then p1\<lparr>puck_x := W - PUCK_RADIUS, puck_vx := puck_vx p1 * (- BOUNCE_DAMPING)\<rparr>
                else p1);
          p3 = (if puck_y p2 - PUCK_RADIUS < 0
                then p2\<lparr>puck_y := PUCK_RADIUS, puck_vy := puck_vy p2 * (- BOUNCE_DAMPING)\<rparr>
                else p2);
          p4 = (if puck_y p3 + PUCK_RADIUS > H
                then p3\<lparr>puck_y := H - PUCK_RADIUS, puck_vy := puck_vy p3 * (- BOUNCE_DAMPING)\<rparr>
                else p3)
      in p4)"

text \<open>The rectangular part of one wall segment.\<close>

definition wallRect :: "real \<Rightarrow> puck \<Rightarrow> segment \<Rightarrow> puck" where
  "wallRect H p seg =
     (let wallY = H / 2;
          halfWallThick = WALL_THICKNESS / 2;
          wallLeft = seg_start seg;
          wallRight = seg_end seg
      in if puck_y p + PUCK_RADIUS \<ge> wallY - halfWallThick
            \<and> puck_y p - PUCK_RADIUS \<le> wallY + halfWallThick
         then (if puck_x p \<ge> wallLeft \<and> puck_x p \<le> wallRight
               then p\<lparr>puck_y := (if puck_y p < wallY
                                   then wallY - halfWallThick - PUCK_RADIUS - 1
                                   else wallY + halfWallThick + PUCK_RADIUS + 1),
                       puck_vy := puck_vy p * (- BOUNCE_DAMPING)\<rparr>
               else p)
         else p)"

text \<open>The body of \<open>walls.forEach\<close>: the rectangle, then the cap at each end of the
  segment that is not at the screen edge.\<close>

definition segmentCollision :: "real \<Rightarrow> real \<Rightarrow> segment \<Rightarrow> puck \<Rightarrow> error + puck" where
  "segmentCollision W H seg p =
     (let wallY = H / 2;
          halfWallThick = WALL_THICKNESS / 2;
          wallLeft = seg_start seg;
          wallRight = seg_end seg;
          p1 = wallRect H p seg
      in case (if wallLeft > 0 then checkCapCollision p1 wallLeft wallY halfWallThick
               else Inr p1) of
           Inl e \<Rightarrow> Inl e
         | Inr p2 \<Rightarrow>
            (if wallRight < W then checkCapCollision p2 wallRight wallY halfWallThick
             else Inr p2))"

definition obstacleCollision :: "obstacle \<Rightarrow> puck \<Rightarrow> error + puck" where
  "obstacleCollision obs p = checkCapCollision p (obs_x obs) (obs_y obs) (obs_radius obs)"

text \<open>\<open>Math.atan2(y, x)\<close> on real numbers.\<close>

definition atan2 :: "real \<Rightarrow> real \<Rightarrow> real" where
  "atan2 b a =
     (if a > 0 then arctan (b / a)
      else if a < 0 \<and> b \<ge> 0 then arctan (b / a) + pi
      else if a < 0 \<and> b < 0 then arctan (b / a) - pi
      else if b > 0 then pi / 2
      else if b < 0 then - pi / 2
      else 0)"

text \<open>
  Ball-to-ball collision of \<open>puck\<close> and \<open>other\<close> (lines 202-245). The normal is
  \<open>dx / dist\<close> with no guard: at coinciding centres JavaScript computes \<open>0 / 0\<close>.
\<close>

definition ballCollision :: "puck \<Rightarrow> puck \<Rightarrow> error + (puck \<times> puck)" where
  "ballCollision p other =
     (let dx = puck_x other - puck_x p;
          dy = puck_y other - puck_y p;
          dist = sqrt (dx * dx + dy * dy);
          minDist = PUCK_RADIUS * 2
      in if dist < minDist then
           (let overlap = minDist - dist;
                angle = atan2 dy dx;
                moveX = (cos angle * overlap) / 2;
                moveY = (sin angle * overlap) / 2
            in case jsdiv dx dist of
                 Inl e \<Rightarrow> Inl e
               | Inr nx \<Rightarrow>
                  (case jsdiv dy dist of
                     Inl e \<Rightarrow> Inl e
                   | Inr ny \<Rightarrow>
                      (let tx = - ny;
                           ty = nx;
                           dpTan1 = puck_vx p * tx + puck_vy p * ty;
                           dpTan2 = puck_vx other * tx + puck_vy other * ty;
                           dpNorm1 = puck_vx p * nx + puck_vy p * ny;
                           dpNorm2 = puck_vx other * nx + puck_vy other * ny;
                           m1 = 1;
                           m2 = 1;
                           mom1 = (dpNorm1 * (m1 - m2) + 2 * m2 * dpNorm2) / (m1 + m2);
                           mom2 = (dpNorm2 * (m2 - m1) + 2 * m1 * dpNorm1) / (m1 + m2)
                       in Inr (p\<lparr>puck_x := puck_x p - moveX,
                                 puck_y := puck_y p - moveY,
                                 puck_vx := (tx * dpTan1 + nx * mom1) * BOUNCE_DAMPING,
                                 puck_vy := (ty * dpTan1 + ny * mom1) * BOUNCE_DAMPING\<rparr>,
                               other\<lparr>puck_x := puck_x other + moveX,
                                     puck_y := puck_y other + moveY,
                                     puck_vx := (tx * dpTan2 + nx * mom2) * BOUNCE_DAMPING,
                                     puck_vy := (ty * dpTan2 + ny * mom2) * BOUNCE_DAMPING\<rparr>))))
         else Inr (p, other))"

text \<open>The loop \<open>for (j = index + 1; j < pucks.length; j++)\<close> over the later pucks.\<close>

fun ballLoop :: "(pointerId \<times> touch) list \<Rightarrow> nat \<Rightarrow> nat list \<Rightarrow> puck list \<Rightarrow> error + puck list" where
  "ballLoop ts index [] ps = Inr ps"
| "ballLoop ts index (j # js) ps =
     (if isDragged ts j then ballLoop ts index js ps
      else (case ballCollision (ps ! index) (ps ! j) of
              Inl e \<Rightarrow> Inl e
            | Inr (p', other') \<Rightarrow> ballLoop ts index js (ps[index := p', j := other'])))"

text \<open>The callback of \<open>pucks.forEach\<close> inside a sub-step, for the puck at \<open>index\<close>.\<close>

definition puckPhysics :: "game \<Rightarrow> int \<Rightarrow> nat \<Rightarrow> puck list \<Rightarrow> error + puck list" where
  "puckPhysics g now index ps =
     (if isDragged (activeTouches g) index then Inr ps
      else
        (let p1 = wallCollisions (width g) (height g) (movePuck (ps ! index))
         in case getWallSegments g now of
              Inl e \<Rightarrow> Inl e
            | Inr walls \<Rightarrow>
               (case foldE (segmentCollision (width g) (height g)) walls p1 of
                  Inl e \<Rightarrow> Inl e
                | Inr p2 \<Rightarrow>
                   (case foldE obstacleCollision (getObstacles g) p2 of
                      Inl e \<Rightarrow> Inl e
                    | Inr p3 \<Rightarrow>
                       ballLoop (activeTouches g) index [index + 1 ..< length ps]
                         (ps[index := p3])))))"

definition physicsPass :: "game \<Rightarrow> int \<Rightarrow> puck list \<Rightarrow> error + puck list" where
  "physicsPass g now ps = foldE (puckPhysics g now) [0 ..< length ps] ps"

fun physicsSteps :: "nat \<Rightarrow> game \<Rightarrow> int \<Rightarrow> puck list \<Rightarrow> error + puck list" where
  "physicsSteps 0 g now ps = Inr ps"
| "physicsSteps (Suc n) g now ps =
     (case physicsPass g now ps of
        Inl e \<Rightarrow> Inl e
      | Inr ps' \<Rightarrow> physicsSteps n g now ps')"

subsection \<open>Friction, side counts and the win condition (main.js lines 250-288)\<close>

definition applyFriction :: "(pointerId \<times> touch) list \<Rightarrow> puck list \<Rightarrow> puck list" where
  "applyFriction ts ps =
     map (\<lambda>(index, p).
            if \<not> isDragged ts index
            then p\<lparr>puck_vx := puck_vx p * FRICTION, puck_vy := puck_vy p * FRICTION\<rparr>
            else p)
         (enumerate 0 ps)"

definition topCount :: "real \<Rightarrow> puck list \<Rightarrow> nat" where
  "topCount H ps = length (filter (\<lambda>p. puck_y p < H / 2) ps)"

definition bottomCount :: "real \<Rightarrow> puck list \<Rightarrow> nat" where
  "bottomCount H ps = length (filter (\<lambda>p. \<not> puck_y p < H / 2) ps)"

text \<open>
  \<open>!winTimestamp\<close>: true for \<open>null\<close> and for the number 0. In the win condition the
  two readings of \<open>Date.now()\<close> are the frame's \<open>now\<close>; \<open>updateScoreUI()\<close> repaints the
  tallies from \<open>topWins\<close> and \<open>bottomWins\<close> and changes no variable of the module.
\<close>

definition falsy :: "int option \<Rightarrow> bool" where
  "falsy t = (case t of None \<Rightarrow> True | Some v \<Rightarrow> v = 0)"

definition winCondition :: "game \<Rightarrow> nat \<Rightarrow> nat \<Rightarrow> int \<Rightarrow> game" where
  "winCondition g tc bc now =
     (if tc = 0 then
        (case winTimestamp g of
           None \<Rightarrow> g\<lparr>winTimestamp := Some (now + 800)\<rparr>
         | Some t \<Rightarrow>
            (if falsy (Some t) then g\<lparr>winTimestamp := Some (now + 800)\<rparr>
             else if now > t then
               g\<lparr>gameState := Won, winner := Some Top, topWins := topWins g + 1\<rparr>
             else g))
      else if bc = 0 then
        (case winTimestamp g of
           None \<Rightarrow> g\<lparr>winTimestamp := Some (now + 800)\<rparr>
         | Some t \<Rightarrow>
            (if falsy (Some t) then g\<lparr>winTimestamp := Some (now + 800)\<rparr>
             else if now > t then
               g\<lparr>gameState := Won, winner := Some Bottom, bottomWins := bottomWins g + 1\<rparr>
             else g))
      else g\<lparr>winTimestamp := None\<rparr>)"

subsection \<open>update (main.js lines 126-289)\<close>

definition update :: "game \<Rightarrow> int \<Rightarrow> error + game" where
  "update g now =
     (if gameState g \<noteq> Playing then Inr g
      else
        (case physicsSteps steps g now (pucks g) of
           Inl e \<Rightarrow> Inl e
         | Inr ps \<Rightarrow>
            (let ps' = applyFriction (activeTouches g) ps
             in Inr (winCondition (g\<lparr>pucks := ps'\<rparr>)
                       (topCount (height g) ps') (bottomCount (height g) ps') now))))"

subsection \<open>startGame (main.js lines 85-117)\<close>

text \<open>
  The twenty calls of \<open>Math.random()\<close> are the parameter \<open>rnd\<close>: \<open>rnd k\<close> is the
  result of the \<open>k\<close>-th call.
\<close>

definition spawn :: "game \<Rightarrow> (nat \<Rightarrow> real) \<Rightarrow> nat \<Rightarrow> real \<Rightarrow> nat \<Rightarrow> puck" where
  "spawn g rnd off fy i =
     \<lparr>puck_id = i + off,
      puck_x = width g / 2 + (rnd (2 * (i + off)) * 200 - 100),
      puck_y = height g * fy + (rnd (2 * (i + off) + 1) * 100 - 50),
      puck_vx = 0,
      puck_vy = 0,
      puck_color = ''#00ff00''\<rparr>"

definition startGame :: "(nat \<Rightarrow> real) \<Rightarrow> game \<Rightarrow> game" where
  "startGame rnd g =
     g\<lparr>pucks := map (spawn g rnd 0 (25 / 100)) [0 ..< 5] @ map (spawn g rnd 5 (75 / 100)) [0 ..< 5],
       activeTouches := [],
       gameState := Playing,
       winner := None,
       winTimestamp := None,
       currentLevel := topWins g + bottomWins g\<rparr>"

subsection \<open>Input handling (main.js lines 478-586)\<close>

text \<open>\<open>Array.prototype.findIndex\<close> with a callback on the element and its index.\<close>

fun findIndexFrom :: "('a \<Rightarrow> nat \<Rightarrow> bool) \<Rightarrow> 'a list \<Rightarrow> nat \<Rightarrow> nat option" where
  "findIndexFrom P [] i = None"
| "findIndexFrom P (a # as) i = (if P a i then Some i else findIndexFrom P as (Suc i))"

definition findIndex :: "('a \<Rightarrow> nat \<Rightarrow> bool) \<Rightarrow> 'a list \<Rightarrow> nat option" where
  "findIndex P as = findIndexFrom P as 0"

text \<open>The callback of the hit test.\<close>

definition hit :: "game \<Rightarrow> real \<Rightarrow> real \<Rightarrow> puck \<Rightarrow> nat \<Rightarrow> bool" where
  "hit g px py p index =
     (if isDragged (activeTouches g) index then False
      else (let dx = puck_x p - px; dy = puck_y p - py
            in sqrt (dx * dx + dy * dy) < PUCK_RADIUS * 3))"

definition handleStart :: "real \<Rightarrow> real \<Rightarrow> pointerId \<Rightarrow> (nat \<Rightarrow> real) \<Rightarrow> game \<Rightarrow> game" where
  "handleStart px py k rnd g =
     (if gameState g \<noteq> Playing then
        (if gameState g = Start \<or> gameState g = Won then startGame rnd g else g)
      else if has (activeTouches g) k then g
      else
        (case findIndex (hit g px py) (pucks g) of
           None \<Rightarrow> g
         | Some clickedIndex \<Rightarrow>
            (let p = pucks g ! clickedIndex;
                 isClickTop = (py < height g / 2);
                 isPuckTop = (puck_y p < height g / 2)
             in if isClickTop = isPuckTop then
                  g\<lparr>activeTouches :=
                       AList.update k
                         \<lparr>puckIndex = clickedIndex, startX = px, startY = py,
                          currentX = px, currentY = py, anchor = None,
                          side = (if isClickTop then Top else Bottom)\<rparr>
                         (activeTouches g),
                     pucks := (pucks g)[clickedIndex := p\<lparr>puck_vx := 0, puck_vy := 0\<rparr>]\<rparr>
                else g)))"

text \<open>
  \<open>handleMove\<close> and \<open>handleEnd\<close> read \<open>pucks[touch.puckIndex]\<close>; out of range that is
  \<open>undefined\<close> and the first field access throws. The arithmetic of the release
  (main.js lines 570-582) is in doubles: every operation is rounded by \<open>fl\<close>, the literal
  \<open>0.30\<close> is the double \<open>fl DRAG_FORCE\<close>, and \<open>Math.sqrt\<close> is correctly rounded.
\<close>

definition handleMove :: "real \<Rightarrow> real \<Rightarrow> pointerId \<Rightarrow> game \<Rightarrow> error + game" where
  "handleMove px py k g =
     (case map_of (activeTouches g) k of
        None \<Rightarrow> Inr g
      | Some t \<Rightarrow>
         (if puckIndex t \<ge> length (pucks g) then Inl TypeError
          else
            (let p = pucks g ! puckIndex t;
                 topBandY = height g * (15 / 100);
                 bottomBandY = height g * (85 / 100);
                 p1 = p\<lparr>puck_x := px, puck_y := py\<rparr>;
                 t1 = t\<lparr>currentX := px, currentY := py\<rparr>
             in if side t1 = Top then
                  (let p2 = p1\<lparr>puck_y := min (puck_y p1) (height g / 2 - PUCK_RADIUS - 10)\<rparr>;
                       t2 = (if puck_y p2 < topBandY
                             then (if anchor t1 = None
                                   then t1\<lparr>anchor := Some (puck_x p2, topBandY)\<rparr>
                                   else t1)
                             else t1\<lparr>anchor := None\<rparr>)
                   in Inr (g\<lparr>pucks := (pucks g)[puckIndex t := p2],
                              activeTouches := AList.update k t2 (activeTouches g)\<rparr>))
                else
                  (let p2 = p1\<lparr>puck_y := max (puck_y p1) (height g / 2 + PUCK_RADIUS + 10)\<rparr>;
                       t2 = (if puck_y p2 > bottomBandY
                             then (if anchor t1 = None
                                   then t1\<lparr>anchor := Some (puck_x p2, bottomBandY)\<rparr>
                                   else t1)
                             else t1\<lparr>anchor := None\<rparr>)
                   in Inr (g\<lparr>pucks := (pucks g)[puckIndex t := p2],
                              activeTouches := AList.update k t2 (activeTouches g)\<rparr>)))))"

definition handleEnd :: "pointerId \<Rightarrow> game \<Rightarrow> error + game" where
  "handleEnd k g =
     (case map_of (activeTouches g) k of
        None \<Rightarrow> Inr g
      | Some t \<Rightarrow>
         (case anchor t of
            None \<Rightarrow> Inr (g\<lparr>activeTouches := AList.delete k (activeTouches g)\<rparr>)
          | Some (ax, ay) \<Rightarrow>
             (if puckIndex t \<ge> length (pucks g) then Inl TypeError
              else
                (let p = pucks g ! puckIndex t
                 in thenE (fl DRAG_FORCE) (\<lambda>d.
                    thenE (fl (ax - puck_x p)) (\<lambda>dx.
                    thenE (fl (dx * d)) (\<lambda>vx.
                    thenE (fl (ay - puck_y p)) (\<lambda>dy.
                    thenE (fl (dy * d)) (\<lambda>vy.
                    thenE (fl (vx * vx)) (\<lambda>sx.
                    thenE (fl (vy * vy)) (\<lambda>sy.
                    thenE (fl (sx + sy)) (\<lambda>s.
                    thenE (fl (sqrt s)) (\<lambda>speed.
                    thenE (if speed > MAX_SPEED
                           then thenE (fl (MAX_SPEED / speed)) (\<lambda>ratio.
                                thenE (fl (vx * ratio)) (\<lambda>vx2.
                                thenE (fl (vy * ratio)) (\<lambda>vy2.
                                Inr (p\<lparr>puck_vx := vx2, puck_vy := vy2\<rparr>))))
                           else Inr (p\<lparr>puck_vx := vx, puck_vy := vy\<rparr>)) (\<lambda>p2.
                    Inr (g\<lparr>pucks := (pucks g)[puckIndex t := p2],
                           activeTouches := AList.delete k (activeTouches g)\<rparr>)))))))))))))))"

text \<open>\<open>handleResize\<close> as far as the simulation sees it: the arena size changes.\<close>

definition handleResize :: "real \<Rightarrow> real \<Rightarrow> game \<Rightarrow> game" where
  "handleResize W H g = g\<lparr>width := W, height := H\<rparr>"

subsection \<open>Events\<close>

text \<open>
  What reaches the module between frames: the pointer events of the wrappers
  (\<open>onMouseDown\<close>, \<open>onTouchStart\<close>, ..., one event per changed touch; \<open>touchcancel\<close> calls
  \<open>handleEnd\<close>), the animation frame with its clock reading, and a resize.
\<close>

datatype event =
    PointerStart real real pointerId "nat \<Rightarrow> real"
  | PointerMove real real pointerId
  | PointerEnd pointerId
  | PointerCancel pointerId
  | Frame int
  | Resize real real

fun handleEvent :: "event \<Rightarrow> game \<Rightarrow> error + game" where
  "handleEvent (PointerStart px py k rnd) g = Inr (handleStart px py k rnd g)"
| "handleEvent (PointerMove px py k) g = handleMove px py k g"
| "handleEvent (PointerEnd k) g = handleEnd k g"
| "handleEvent (PointerCancel k) g = handleEnd k g"
| "handleEvent (Frame now) g = update g now"
| "handleEvent (Resize W H) g = Inr (handleResize W H g)"

definition runEvents :: "event list \<Rightarrow> game \<Rightarrow> error + game" where
  "runEvents evs g = foldE handleEvent evs g"

text \<open>The module state after \<open>init\<close>, before the first event.\<close>

definition initialGame :: "real \<Rightarrow> real \<Rightarrow> real \<Rightarrow> game" where
  "initialGame W H gap =
     \<lparr>gameState = Start, winner = None, pucks = [], activeTouches = [],
      winTimestamp = None, width = W, height = H, topWins = 0, bottomWins = 0,
      currentLevel = 0, GAP_OFFSET = gap\<rparr>"

subsection \<open>Rendering of the wall (main.js lines 330-337)\<close>

datatype drawCmd = BeginPath | MoveTo real real | LineTo real real | Stroke

definition renderWalls :: "game \<Rightarrow> int \<Rightarrow> error + drawCmd list" where
  "renderWalls g now =
     (case getWallSegments g now of
        Inl e \<Rightarrow> Inl e
      | Inr walls \<Rightarrow>
         Inr (concat (map (\<lambda>seg. [BeginPath,
                                   MoveTo (seg_start seg) (height g / 2),
                                   LineTo (seg_end seg) (height g / 2),
                                   LineTo (seg_end seg) (height g / 2),
                                   Stroke]) walls)))"

subsection \<open>Example states\<close>

text \<open>A puck pulled 200 pixels behind the top band of a tall arena, held by the mouse.\<close>

definition launchGame :: game where
  "launchGame =
     \<lparr>gameState = Playing, winner = None,
      pucks = [\<lparr>puck_id = 0, puck_x = 200, puck_y = 10, puck_vx = 0, puck_vy = 0,
                puck_color = ''#00ff00''\<rparr>],
      activeTouches = [(Mouse, \<lparr>puckIndex = 0, startX = 200, startY = 300, currentX = 200,
                                currentY = 10, anchor = Some (200, 210), side = Top\<rparr>)],
      winTimestamp = None, width = 400, height = 1400, topWins = 0, bottomWins = 0,
      currentLevel = 0, GAP_OFFSET = 100\<rparr>"

text \<open>
  A puck that crossed the top band of a 400 x 600 arena at \<open>x = 0\<close> (anchor \<open>(0, 90)\<close>)
  and is held at \<open>(150, 7)\<close>.
\<close>

definition capGame :: game where
  "capGame =
     \<lparr>gameState = Playing, winner = None,
      pucks = [\<lparr>puck_id = 0, puck_x = 150, puck_y = 7, puck_vx = 0, puck_vy = 0,
                puck_color = ''#00ff00''\<rparr>],
      activeTouches = [(Mouse, \<lparr>puckIndex = 0, startX = 100, startY = 150, currentX = 150,
                                currentY = 7, anchor = Some (0, 90), side = Top\<rparr>)],
      winTimestamp = None, width = 400, height = 600, topWins = 0, bottomWins = 0,
      currentLevel = 0, GAP_OFFSET = 100\<rparr>"

text \<open>Two pucks in the static gap of level 1, one just below the midline and one above it.\<close>

definition pressGame :: game where
  "pressGame =
     \<lparr>gameState = Playing, winner = None,
      pucks = [\<lparr>puck_id = 0, puck_x = 200, puck_y = 305, puck_vx = 2, puck_vy = 0,
                puck_color = ''#00ff00''\<rparr>,
               \<lparr>puck_id = 1, puck_x = 200, puck_y = 270, puck_vx = 1, puck_vy = 0,
                puck_color = ''#00ff00''\<rparr>],
      activeTouches = [],
      winTimestamp = None, width = 400, height = 600, topWins = 0, bottomWins = 0,
      currentLevel = 0, GAP_OFFSET = 100\<rparr>"

text \<open>A run of \<open>Math.random()\<close> that returns 0 every time.\<close>

definition zeroRandom :: "nat \<Rightarrow> real" where
  "zeroRandom n = 0"

text \<open>
  Ten pucks at rest, clear of each other, of the arena edges and of the wall, between
  \<open>y = 250\<close> and \<open>y = 330\<close>: the bottom half of an 800 by 400 arena, the top half of a
  400 by 800 arena (the same screen turned).
\<close>

definition restPuck :: "nat \<Rightarrow> real \<Rightarrow> real \<Rightarrow> puck" where
  "restPuck i px py =
     \<lparr>puck_id = i, puck_x = px, puck_y = py, puck_vx = 0, puck_vy = 0,
      puck_color = ''#00ff00''\<rparr>"

definition tenPucks :: "puck list" where
  "tenPucks =
     [restPuck 0 40 250, restPuck 1 110 250, restPuck 2 180 250, restPuck 3 250 250,
      restPuck 4 320 250, restPuck 5 40 330, restPuck 6 110 330, restPuck 7 180 330,
      restPuck 8 250 330, restPuck 9 320 330]"

definition exampleGame :: "real \<Rightarrow> real \<Rightarrow> int option \<Rightarrow> game" where
  "exampleGame W H wt =
     \<lparr>gameState = Playing, winner = None, pucks = tenPucks, activeTouches = [],
      winTimestamp = wt, width = W, height = H, topWins = 0, bottomWins = 0,
      currentLevel = 0, GAP_OFFSET = 200\<rparr>"

subsection \<open>Invariants of the session map and of the debounce timer\<close>

text \<open>What a frame may change in the puck list: nothing of a dragged puck, not the length.\<close>

definition keepsDragged :: "(pointerId \<times> touch) list \<Rightarrow> puck list \<Rightarrow> puck list \<Rightarrow> bool" where
  "keepsDragged ts ps ps' =
     (length ps' = length ps \<and> (\<forall>i < length ps. isDragged ts i \<longrightarrow> ps' ! i = ps ! i))"

text \<open>
  The sessions are well formed: one session per pointer identifier, one session per puck,
  every session's puck exists and is at rest.
\<close>

definition draggedIndices :: "(pointerId \<times> touch) list \<Rightarrow> nat list" where
  "draggedIndices ts = map (\<lambda>kv. puckIndex (snd kv)) ts"

definition sessionsOK :: "game \<Rightarrow> bool" where
  "sessionsOK g =
     (distinct (map fst (activeTouches g)) \<and>
      distinct (draggedIndices (activeTouches g)) \<and>
      list_all (\<lambda>j. j < length (pucks g) \<and> puck_vx (pucks g ! j) = 0 \<and> puck_vy (pucks g ! j) = 0)
        (draggedIndices (activeTouches g)))"

text \<open>
  What the win condition of a frame observes, read off the state that the frame leaves:
  a side without a puck.
\<close>

definition zeroCount :: "game \<Rightarrow> bool" where
  "zeroCount g =
     (topCount (height g) (pucks g) = 0 \<or> bottomCount (height g) (pucks g) = 0)"

text \<open>
  \<open>streak d es g\<close>: from the state \<open>g\<close> every event of \<open>es\<close> returns, the match stays
  \<open>playing\<close> with the timer at \<open>d\<close>, and every frame among them observes a zero count.
\<close>

fun streak :: "int \<Rightarrow> event list \<Rightarrow> game \<Rightarrow> bool" where
  "streak d [] g = True"
| "streak d (e # es) g =
     (case handleEvent e g of
        Inl err \<Rightarrow> False
      | Inr g' \<Rightarrow>
          gameState g' = Playing \<and> winTimestamp g' = Some d \<and>
          (case e of Frame t \<Rightarrow> zeroCount g' | _ \<Rightarrow> True) \<and>
          streak d es g')"

text \<open>
  The two events after which no frame has yet observed a zero count: a press that starts
  the match, and a frame of a playing match that observes both sides non-empty.
  \<open>noFrame es\<close>: no animation frame among the events \<open>es\<close>.
\<close>

definition startsMatch :: "event \<Rightarrow> game \<Rightarrow> bool" where
  "startsMatch e g =
     (case e of PointerStart px py k rnd \<Rightarrow> gameState g \<noteq> Playing | _ \<Rightarrow> False)"

definition clearsTimer :: "event \<Rightarrow> game \<Rightarrow> bool" where
  "clearsTimer e g =
     (case e of
        Frame t \<Rightarrow>
          gameState g = Playing \<and>
          (case update g t of Inl err \<Rightarrow> False | Inr g' \<Rightarrow> \<not> zeroCount g')
      | _ \<Rightarrow> False)"

definition noFrame :: "event list \<Rightarrow> bool" where
  "noFrame es = list_all (\<lambda>e. case e of Frame t \<Rightarrow> False | _ \<Rightarrow> True) es"

text \<open>
  The invariant of the debounce timer: while the match is playing, a timer that is set was
  set by a frame of this run that found it unset and observed a zero count, 800 ms
  after the clock reading of that frame, and has been kept by a streak since.
\<close>

definition armedSince :: "game \<Rightarrow> event list \<Rightarrow> game \<Rightarrow> bool" where
  "armedSince init evs g =
     (\<forall>d. gameState g = Playing \<and> winTimestamp g = Some d \<longrightarrow>
        (\<exists>pre t0 post g0 g1.
            evs = pre @ Frame t0 # post \<and>
            runEvents pre init = Inr g0 \<and>
            gameState g0 = Playing \<and> falsy (winTimestamp g0) \<and>
            update g0 t0 = Inr g1 \<and> zeroCount g1 \<and>
            gameState g1 = Playing \<and> winTimestamp g1 = Some d \<and> d = t0 + 800 \<and>
            streak d post g1 \<and> foldE handleEvent post g1 = Inr g))"

text \<open>
  A run of \<open>Math.random()\<close> that spawns two rows of five pucks, 40 pixels apart, and the
  states of a 400 by 600 arena after the start, during a drag of puck 0 and with two
  touches down.
\<close>

definition rowRandom :: "nat \<Rightarrow> real" where
  "rowRandom n = (if even n then real ((n div 2) mod 5) / 5 else 1 / 2)"

definition rowPucks :: "puck list" where
  "rowPucks =
     [restPuck 0 100 150, restPuck 1 140 150, restPuck 2 180 150, restPuck 3 220 150,
      restPuck 4 260 150, restPuck 5 100 450, restPuck 6 140 450, restPuck 7 180 450,
      restPuck 8 220 450, restPuck 9 260 450]"

definition rowGame :: "real \<Rightarrow> int option \<Rightarrow> game" where
  "rowGame H wt =
     \<lparr>gameState = Playing, winner = None, pucks = rowPucks, activeTouches = [],
      winTimestamp = wt, width = 400, height = H, topWins = 0, bottomWins = 0,
      currentLevel = 0, GAP_OFFSET = 100\<rparr>"

definition dragTouch :: touch where
  "dragTouch = \<lparr>puckIndex = 0, startX = 100, startY = 150, currentX = 120, currentY = 200,
                anchor = None, side = Top\<rparr>"

definition dragGame :: game where
  "dragGame = (rowGame 600 None)
     \<lparr>pucks := rowPucks[0 := restPuck 0 120 200], activeTouches := [(Mouse, dragTouch)]\<rparr>"

definition twoTouches :: "(pointerId \<times> touch) list" where
  "twoTouches =
     [(TouchId 1, \<lparr>puckIndex = 0, startX = 100, startY = 150, currentX = 100, currentY = 150,
                   anchor = None, side = Top\<rparr>),
      (TouchId 2, \<lparr>puckIndex = 1, startX = 100, startY = 150, currentX = 100, currentY = 150,
                   anchor = None, side = Top\<rparr>)]"

text \<open>Level 4 (three wins so far) on a 375 pixel wide arena, one puck just above the wall.\<close>

definition level4Game :: game where
  "level4Game =
     \<lparr>gameState = Playing, winner = None,
      pucks = [\<lparr>puck_id = 0, puck_x = 475 / 2, puck_y = 280, puck_vx = 0, puck_vy = 3,
                puck_color = ''#00ff00''\<rparr>],
      activeTouches = [], winTimestamp = None, width = 375, height = 600,
      topWins = 2, bottomWins = 1, currentLevel = 3, GAP_OFFSET = 375 / 4\<rparr>"

text \<open>Pucks 0 and 1 released one after the other at the same clamped position in the gap.\<close>

definition stackedGame :: game where
  "stackedGame = (rowGame 600 None)
     \<lparr>pucks := rowPucks[0 := restPuck 0 200 275, 1 := restPuck 1 200 275]\<rparr>"

section \<open>Properties\<close>

lemmas consts_defs =
  PUCK_RADIUS_def HOLE_WIDTH_def WALL_THICKNESS_def FRICTION_def BOUNCE_DAMPING_def
  MAX_SPEED_def DRAG_FORCE_def


subsection \<open>Cap collisions\<close>

text \<open>The divisor \<open>safeDist\<close> is at least \<open>1e-6\<close>, so both divisions succeed and the
  function has a closed form.\<close>

lemma checkCapCollision_Inr:
  "checkCapCollision p capX capY r =
     Inr (let dx = puck_x p - capX; dy = puck_y p - capY;
              dist = sqrt (dx * dx + dy * dy);
              safeDist = (if dist > 1 / 1000000 then dist else 1 / 1000000);
              nx = dx / safeDist; ny = dy / safeDist;
              dp = puck_vx p * nx + puck_vy p * ny
          in if dist < r + PUCK_RADIUS then
               p\<lparr>puck_x := puck_x p + nx * (r + PUCK_RADIUS - dist),
                 puck_y := puck_y p + ny * (r + PUCK_RADIUS - dist),
                 puck_vx := (puck_vx p - 2 * dp * nx) * BOUNCE_DAMPING,
                 puck_vy := (puck_vy p - 2 * dp * ny) * BOUNCE_DAMPING\<rparr>
             else p)"
  unfolding checkCapCollision_def Let_def
  by (auto simp: jsdiv_def split: if_splits)

text \<open>
  Claim C6. For every puck and every cap or obstacle circle, \<open>checkCapCollision\<close> never
  divides by zero and never produces a non-finite position or velocity: it always returns
  a puck. When the puck centre is exactly the cap centre, the substituted minimum distance
  gives the normal \<open>(0, 0)\<close>: the position stays and the velocity is only damped.
\<close>

theorem checkCapCollision_never_nonfinite:
  "(\<exists>q. checkCapCollision p capX capY r = Inr q) \<and>
   (puck_x p = capX \<and> puck_y p = capY \<and> 0 < r + PUCK_RADIUS \<longrightarrow>
      checkCapCollision p capX capY r =
        Inr (p\<lparr>puck_vx := puck_vx p * BOUNCE_DAMPING, puck_vy := puck_vy p * BOUNCE_DAMPING\<rparr>))"
  by (simp add: checkCapCollision_Inr Let_def)

theorem checkCapCollision_never_nonfinite_witness:
  "(\<exists>q. checkCapCollision
          \<lparr>puck_id = 0, puck_x = 150, puck_y = 300, puck_vx = 3, puck_vy = 4,
           puck_color = ''#00ff00''\<rparr> 150 300 10 = Inr q) \<and>
   checkCapCollision
     \<lparr>puck_id = 0, puck_x = 150, puck_y = 300, puck_vx = 3, puck_vy = 4,
      puck_color = ''#00ff00''\<rparr> 150 300 10 =
     Inr \<lparr>puck_id = 0, puck_x = 150, puck_y = 300, puck_vx = 27 / 10, puck_vy = 36 / 10,
          puck_color = ''#00ff00''\<rparr>"
  using checkCapCollision_never_nonfinite
    [of "\<lparr>puck_id = 0, puck_x = 150, puck_y = 300, puck_vx = 3, puck_vy = 4,
          puck_color = ''#00ff00''\<rparr>" 150 300 10]
  by (simp add: PUCK_RADIUS_def BOUNCE_DAMPING_def)

text \<open>
  Claim C10. \<open>checkCapCollision\<close> changes only the position and the velocity of the puck
  it is given (its identity and colour are kept; the function has no other state to
  write), and when the distance between the puck centre and the cap centre is at least
  the cap radius plus \<open>PUCK_RADIUS\<close> it returns the puck unchanged.
\<close>

theorem checkCapCollision_frame:
  "\<exists>q. checkCapCollision p capX capY r = Inr q \<and>
     puck_id q = puck_id p \<and> puck_color q = puck_color p \<and>
     (sqrt ((puck_x p - capX) * (puck_x p - capX) + (puck_y p - capY) * (puck_y p - capY))
        \<ge> r + PUCK_RADIUS \<longrightarrow> q = p)"
  by (simp add: checkCapCollision_Inr Let_def)

theorem checkCapCollision_frame_witness:
  "sqrt ((165 - 150) * (165 - 150) + (320 - 300) * (320 - 300)) \<ge> 10 + PUCK_RADIUS \<and>
   checkCapCollision
     \<lparr>puck_id = 7, puck_x = 165, puck_y = 320, puck_vx = 3, puck_vy = 4,
      puck_color = ''#00ff00''\<rparr> 150 300 10 =
     Inr \<lparr>puck_id = 7, puck_x = 165, puck_y = 320, puck_vx = 3, puck_vy = 4,
          puck_color = ''#00ff00''\<rparr>"
proof -
  have "sqrt ((165 - 150) * (165 - 150) + (320 - 300) * (320 - 300)) = (25::real)"
    using real_sqrt_abs2[of 25] by simp
  then show ?thesis
    using checkCapCollision_frame
      [of "\<lparr>puck_id = 7, puck_x = 165, puck_y = 320, puck_vx = 3, puck_vy = 4,
            puck_color = ''#00ff00''\<rparr>" 150 300 10]
    by (simp add: PUCK_RADIUS_def)
qed

subsection \<open>Energy of the collision responses\<close>

lemma normal_norm_le_1:
  fixes dx dy sd :: real
  assumes sd: "0 < sd" "sqrt (dx * dx + dy * dy) \<le> sd"
  shows "(dx / sd) * (dx / sd) + (dy / sd) * (dy / sd) \<le> 1"
proof -
  define dd where "dd = sqrt (dx * dx + dy * dy)"
  have d0: "0 \<le> dd" by (simp add: dd_def)
  have "dx * dx + dy * dy = dd * dd"
    unfolding dd_def by (simp add: power2_eq_square[symmetric])
  also have "\<dots> \<le> sd * sd"
  proof (rule mult_mono)
    show "dd \<le> sd" "dd \<le> sd" using sd(2) by (simp_all only: dd_def)
    show "0 \<le> sd" using sd(1) by simp
    show "0 \<le> dd" by (rule d0)
  qed
  finally have "(dx * dx + dy * dy) / (sd * sd) \<le> 1" using sd by simp
  then show ?thesis by (simp add: add_divide_distrib)
qed

lemma reflect_energy:
  fixes vx vy nx ny :: real
  assumes "nx * nx + ny * ny \<le> 1"
  shows "(vx - 2 * (vx * nx + vy * ny) * nx) * (vx - 2 * (vx * nx + vy * ny) * nx)
       + (vy - 2 * (vx * nx + vy * ny) * ny) * (vy - 2 * (vx * nx + vy * ny) * ny)
       \<le> vx * vx + vy * vy"
proof -
  let ?dp = "vx * nx + vy * ny"
  have "(vx - 2 * ?dp * nx) * (vx - 2 * ?dp * nx) + (vy - 2 * ?dp * ny) * (vy - 2 * ?dp * ny)
      = vx * vx + vy * vy - 4 * (?dp * ?dp) * (1 - (nx * nx + ny * ny))"
    by (simp add: algebra_simps)
  moreover have "0 \<le> 4 * (?dp * ?dp) * (1 - (nx * nx + ny * ny))"
    using assms by simp
  ultimately show ?thesis by linarith
qed

lemma checkCapCollision_energy:
  assumes "checkCapCollision p capX capY r = Inr q"
  shows "kineticEnergy q \<le> kineticEnergy p"
proof -
  define dx where "dx = puck_x p - capX"
  define dy where "dy = puck_y p - capY"
  define dd where "dd = sqrt (dx * dx + dy * dy)"
  define sd where "sd = (if dd > 1 / 1000000 then dd else 1 / 1000000)"
  define nx where "nx = dx / sd"
  define ny where "ny = dy / sd"
  define wx where "wx = puck_vx p - 2 * (puck_vx p * nx + puck_vy p * ny) * nx"
  define wy where "wy = puck_vy p - 2 * (puck_vx p * nx + puck_vy p * ny) * ny"
  have sdpos: "0 < sd"
    unfolding sd_def by (cases "dd > 1 / 1000000"; simp)
  have "dd \<le> sd"
    unfolding sd_def by (cases "dd > 1 / 1000000"; simp)
  then have dle: "sqrt (dx * dx + dy * dy) \<le> sd"
    by (simp only: dd_def)
  have n: "nx * nx + ny * ny \<le> 1"
    unfolding nx_def ny_def by (rule normal_norm_le_1[OF sdpos dle])
  have w: "wx * wx + wy * wy \<le> puck_vx p * puck_vx p + puck_vy p * puck_vy p"
    unfolding wx_def wy_def by (rule reflect_energy[OF n])
  show ?thesis
  proof (cases "dd < r + PUCK_RADIUS")
    case True
    then have q: "puck_vx q = wx * BOUNCE_DAMPING" "puck_vy q = wy * BOUNCE_DAMPING"
      using assms
      by (auto simp: checkCapCollision_Inr Let_def dx_def dy_def dd_def sd_def nx_def ny_def
          wx_def wy_def)
    have "puck_vx q * puck_vx q + puck_vy q * puck_vy q = (81 / 100) * (wx * wx + wy * wy)"
      by (simp add: q BOUNCE_DAMPING_def algebra_simps)
    also have "\<dots> \<le> wx * wx + wy * wy"
      by (simp add: mult_left_le_one_le)
    finally show ?thesis using w by (simp add: kineticEnergy_def)
  next
    case False
    then have "q = p" using assms
      by (auto simp: checkCapCollision_Inr Let_def dx_def dy_def dd_def)
    then show ?thesis by simp
  qed
qed


lemma damp_sq_le: "(v * (- BOUNCE_DAMPING)) * (v * (- BOUNCE_DAMPING)) \<le> v * v"
proof -
  have "(v * (- BOUNCE_DAMPING)) * (v * (- BOUNCE_DAMPING)) = (81 / 100) * (v * v)"
    by (simp add: BOUNCE_DAMPING_def)
  also have "\<dots> \<le> v * v" by (simp add: mult_left_le_one_le)
  finally show ?thesis .
qed

lemma wallCollisions_energy: "kineticEnergy (wallCollisions W H p) \<le> kineticEnergy p"
proof -
  have x: "puck_vx (wallCollisions W H p) * puck_vx (wallCollisions W H p) \<le> puck_vx p * puck_vx p"
    using damp_sq_le[of "puck_vx p"] damp_sq_le[of "puck_vx p * (- BOUNCE_DAMPING)"]
    by (auto simp: wallCollisions_def Let_def)
  have y: "puck_vy (wallCollisions W H p) * puck_vy (wallCollisions W H p) \<le> puck_vy p * puck_vy p"
    using damp_sq_le[of "puck_vy p"] damp_sq_le[of "puck_vy p * (- BOUNCE_DAMPING)"]
    by (auto simp: wallCollisions_def Let_def)
  show ?thesis using x y by (simp add: kineticEnergy_def)
qed

lemma wallRect_energy: "kineticEnergy (wallRect H p seg) \<le> kineticEnergy p"
  using damp_sq_le[of "puck_vy p"]
  by (auto simp: wallRect_def Let_def kineticEnergy_def)

lemma basis_decompose:
  fixes a b vx vy :: real
  shows "(vx * (- b) + vy * a) * (vx * (- b) + vy * a) + (vx * a + vy * b) * (vx * a + vy * b)
       = (vx * vx + vy * vy) * (a * a + b * b)"
  by (simp add: algebra_simps)

lemma basis_recombine:
  fixes a b T M :: real
  shows "((- b) * T + a * M) * ((- b) * T + a * M) + (a * T + b * M) * (a * T + b * M)
       = (T * T + M * M) * (a * a + b * b)"
  by (simp add: algebra_simps)

lemma unit_normal:
  fixes dx dy :: real
  assumes "sqrt (dx * dx + dy * dy) \<noteq> 0"
  shows "(dx / sqrt (dx * dx + dy * dy)) * (dx / sqrt (dx * dx + dy * dy))
       + (dy / sqrt (dx * dx + dy * dy)) * (dy / sqrt (dx * dx + dy * dy)) = 1"
proof -
  define dd where "dd = sqrt (dx * dx + dy * dy)"
  have sq: "dd * dd = dx * dx + dy * dy"
    unfolding dd_def by (simp add: power2_eq_square[symmetric])
  have nz: "dd * dd \<noteq> 0" using assms by (simp add: dd_def)
  have "(dx / dd) * (dx / dd) + (dy / dd) * (dy / dd) = (dx * dx + dy * dy) / (dd * dd)"
    by (simp add: add_divide_distrib)
  also have "\<dots> = 1" using nz sq by simp
  finally show ?thesis unfolding dd_def .
qed

lemma ballCollision_far:
  "\<not> sqrt ((puck_x other - puck_x p) * (puck_x other - puck_x p)
           + (puck_y other - puck_y p) * (puck_y other - puck_y p)) < PUCK_RADIUS * 2
   \<Longrightarrow> ballCollision p other = Inr (p, other)"
  by (simp add: ballCollision_def Let_def)

lemma ballCollision_coincident:
  "puck_x other = puck_x p \<Longrightarrow> puck_y other = puck_y p \<Longrightarrow> ballCollision p other = Inl NonFinite"
  by (simp add: ballCollision_def Let_def jsdiv_def PUCK_RADIUS_def)

lemma ballCollision_near:
  fixes p other :: puck
  defines "dx \<equiv> puck_x other - puck_x p"
  defines "dy \<equiv> puck_y other - puck_y p"
  defines "dd \<equiv> sqrt (dx * dx + dy * dy)"
  defines "a \<equiv> dx / dd"
  defines "b \<equiv> dy / dd"
  assumes near: "dd < PUCK_RADIUS * 2" and res: "ballCollision p other = Inr (p', other')"
  shows "dd \<noteq> 0"
    and "puck_vx p' = ((- b) * (puck_vx p * (- b) + puck_vy p * a)
                       + a * (puck_vx other * a + puck_vy other * b)) * BOUNCE_DAMPING"
    and "puck_vy p' = (a * (puck_vx p * (- b) + puck_vy p * a)
                       + b * (puck_vx other * a + puck_vy other * b)) * BOUNCE_DAMPING"
    and "puck_vx other' = ((- b) * (puck_vx other * (- b) + puck_vy other * a)
                       + a * (puck_vx p * a + puck_vy p * b)) * BOUNCE_DAMPING"
    and "puck_vy other' = (a * (puck_vx other * (- b) + puck_vy other * a)
                       + b * (puck_vx p * a + puck_vy p * b)) * BOUNCE_DAMPING"
proof -
  show nz: "dd \<noteq> 0"
  proof
    assume "dd = 0"
    then have "ballCollision p other = Inl NonFinite"
      using near unfolding ballCollision_def Let_def jsdiv_def dd_def dx_def dy_def by simp
    with res show False by simp
  qed
  have eq: "Inr (p', other') =
     (Inr (p\<lparr>puck_x := puck_x p - (cos (atan2 dy dx) * (PUCK_RADIUS * 2 - dd)) / 2,
              puck_y := puck_y p - (sin (atan2 dy dx) * (PUCK_RADIUS * 2 - dd)) / 2,
              puck_vx := ((- b) * (puck_vx p * (- b) + puck_vy p * a)
                          + a * (puck_vx other * a + puck_vy other * b)) * BOUNCE_DAMPING,
              puck_vy := (a * (puck_vx p * (- b) + puck_vy p * a)
                          + b * (puck_vx other * a + puck_vy other * b)) * BOUNCE_DAMPING\<rparr>,
           other\<lparr>puck_x := puck_x other + (cos (atan2 dy dx) * (PUCK_RADIUS * 2 - dd)) / 2,
              puck_y := puck_y other + (sin (atan2 dy dx) * (PUCK_RADIUS * 2 - dd)) / 2,
              puck_vx := ((- b) * (puck_vx other * (- b) + puck_vy other * a)
                          + a * (puck_vx p * a + puck_vy p * b)) * BOUNCE_DAMPING,
              puck_vy := (a * (puck_vx other * (- b) + puck_vy other * a)
                          + b * (puck_vx p * a + puck_vy p * b)) * BOUNCE_DAMPING\<rparr>)
        :: error + puck \<times> puck)"
    using near nz unfolding res[symmetric] ballCollision_def Let_def jsdiv_def
      dd_def dx_def dy_def a_def b_def
    by (simp add: algebra_simps)
  then have "p' = p\<lparr>puck_x := puck_x p - (cos (atan2 dy dx) * (PUCK_RADIUS * 2 - dd)) / 2,
              puck_y := puck_y p - (sin (atan2 dy dx) * (PUCK_RADIUS * 2 - dd)) / 2,
              puck_vx := ((- b) * (puck_vx p * (- b) + puck_vy p * a)
                          + a * (puck_vx other * a + puck_vy other * b)) * BOUNCE_DAMPING,
              puck_vy := (a * (puck_vx p * (- b) + puck_vy p * a)
                          + b * (puck_vx other * a + puck_vy other * b)) * BOUNCE_DAMPING\<rparr>"
    and "other' = other\<lparr>puck_x := puck_x other + (cos (atan2 dy dx) * (PUCK_RADIUS * 2 - dd)) / 2,
              puck_y := puck_y other + (sin (atan2 dy dx) * (PUCK_RADIUS * 2 - dd)) / 2,
              puck_vx := ((- b) * (puck_vx other * (- b) + puck_vy other * a)
                          + a * (puck_vx p * a + puck_vy p * b)) * BOUNCE_DAMPING,
              puck_vy := (a * (puck_vx other * (- b) + puck_vy other * a)
                          + b * (puck_vx p * a + puck_vy p * b)) * BOUNCE_DAMPING\<rparr>"
    by simp_all
  then show "puck_vx p' = ((- b) * (puck_vx p * (- b) + puck_vy p * a)
                       + a * (puck_vx other * a + puck_vy other * b)) * BOUNCE_DAMPING"
    and "puck_vy p' = (a * (puck_vx p * (- b) + puck_vy p * a)
                       + b * (puck_vx other * a + puck_vy other * b)) * BOUNCE_DAMPING"
    and "puck_vx other' = ((- b) * (puck_vx other * (- b) + puck_vy other * a)
                       + a * (puck_vx p * a + puck_vy p * b)) * BOUNCE_DAMPING"
    and "puck_vy other' = (a * (puck_vx other * (- b) + puck_vy other * a)
                       + b * (puck_vx p * a + puck_vy p * b)) * BOUNCE_DAMPING"
    by simp_all
qed

lemma scaled_sq:
  fixes u v k :: real
  shows "(u * k) * (u * k) + (v * k) * (v * k) = (k * k) * (u * u + v * v)"
  by (simp add: algebra_simps)

lemma damping_sq_le: "0 \<le> e \<Longrightarrow> (BOUNCE_DAMPING * BOUNCE_DAMPING) * e \<le> e"
  by (simp add: BOUNCE_DAMPING_def mult_left_le_one_le)

lemma ballCollision_energy:
  assumes res: "ballCollision p other = Inr (p', other')"
  shows "kineticEnergy p' + kineticEnergy other' \<le> kineticEnergy p + kineticEnergy other"
proof -
  define dx where "dx = puck_x other - puck_x p"
  define dy where "dy = puck_y other - puck_y p"
  define dd where "dd = sqrt (dx * dx + dy * dy)"
  define a where "a = dx / dd"
  define b where "b = dy / dd"
  define T1 where "T1 = puck_vx p * (- b) + puck_vy p * a"
  define T2 where "T2 = puck_vx other * (- b) + puck_vy other * a"
  define N1 where "N1 = puck_vx p * a + puck_vy p * b"
  define N2 where "N2 = puck_vx other * a + puck_vy other * b"
  define k where "k = BOUNCE_DAMPING * BOUNCE_DAMPING"
  show ?thesis
  proof (cases "dd < PUCK_RADIUS * 2")
    case False
    then have "ballCollision p other = Inr (p, other)"
      unfolding dd_def dx_def dy_def by (rule ballCollision_far)
    with res show ?thesis by simp
  next
    case True
    note near = ballCollision_near[OF True[unfolded dd_def dx_def dy_def] res,
        folded dx_def dy_def, folded dd_def, folded a_def b_def,
        folded T1_def T2_def N1_def N2_def]
    have unit: "a * a + b * b = 1"
      unfolding a_def b_def dd_def by (rule unit_normal) (use near(1) in \<open>simp add: dd_def\<close>)
    have e1: "puck_vx p' * puck_vx p' + puck_vy p' * puck_vy p' = k * (T1 * T1 + N2 * N2)"
      unfolding near(2,3) k_def by (simp only: scaled_sq basis_recombine unit mult_1_right)
    have e2: "puck_vx other' * puck_vx other' + puck_vy other' * puck_vy other'
            = k * (T2 * T2 + N1 * N1)"
      unfolding near(4,5) k_def by (simp only: scaled_sq basis_recombine unit mult_1_right)
    have d1: "T1 * T1 + N1 * N1 = puck_vx p * puck_vx p + puck_vy p * puck_vy p"
      unfolding T1_def N1_def by (simp only: basis_decompose unit mult_1_right)
    have d2: "T2 * T2 + N2 * N2 = puck_vx other * puck_vx other + puck_vy other * puck_vy other"
      unfolding T2_def N2_def by (simp only: basis_decompose unit mult_1_right)
    have "kineticEnergy p' + kineticEnergy other'
        = k * (((T1 * T1 + N1 * N1) + (T2 * T2 + N2 * N2)) / 2)"
      unfolding kineticEnergy_def e1 e2 by (simp add: field_simps)
    also have "\<dots> = k * (kineticEnergy p + kineticEnergy other)"
      unfolding d1 d2 kineticEnergy_def by (simp add: field_simps)
    also have "\<dots> \<le> kineticEnergy p + kineticEnergy other"
      unfolding k_def by (rule damping_sq_le) (simp add: kineticEnergy_def)
    finally show ?thesis .
  qed
qed

text \<open>
  Energy non-increase of every collision response that returns numbers: the four arena
  edges, the rectangle of a wall segment, a cap or obstacle circle (always), and two pucks
  whose centres differ.
\<close>

theorem collision_energy_nonincrease:
  "kineticEnergy (wallCollisions W H p) \<le> kineticEnergy p \<and>
   kineticEnergy (wallRect H p seg) \<le> kineticEnergy p \<and>
   (\<exists>q. checkCapCollision p capX capY r = Inr q \<and> kineticEnergy q \<le> kineticEnergy p) \<and>
   (puck_x other \<noteq> puck_x p \<or> puck_y other \<noteq> puck_y p \<longrightarrow>
      (\<exists>p' other'. ballCollision p other = Inr (p', other') \<and>
         kineticEnergy p' + kineticEnergy other' \<le> kineticEnergy p + kineticEnergy other))"
proof (intro conjI impI)
  show "kineticEnergy (wallCollisions W H p) \<le> kineticEnergy p"
    by (rule wallCollisions_energy)
  show "kineticEnergy (wallRect H p seg) \<le> kineticEnergy p"
    by (rule wallRect_energy)
  show "\<exists>q. checkCapCollision p capX capY r = Inr q \<and> kineticEnergy q \<le> kineticEnergy p"
    using checkCapCollision_energy checkCapCollision_Inr by blast
next
  assume ne: "puck_x other \<noteq> puck_x p \<or> puck_y other \<noteq> puck_y p"
  have "\<exists>p' other'. ballCollision p other = Inr (p', other')"
  proof (cases "ballCollision p other")
    case (Inl e)
    then have "puck_x other = puck_x p \<and> puck_y other = puck_y p"
      by (auto simp: ballCollision_def Let_def jsdiv_def split: if_splits)
    with ne show ?thesis by simp
  next
    case (Inr pq)
    then show ?thesis by (cases pq) simp
  qed
  then show "\<exists>p' other'. ballCollision p other = Inr (p', other') \<and>
         kineticEnergy p' + kineticEnergy other' \<le> kineticEnergy p + kineticEnergy other"
    using ballCollision_energy by blast
qed

theorem collision_energy_nonincrease_witness:
  "(puck_x (restPuck 1 12 16) \<noteq> puck_x ((restPuck 0 0 0)\<lparr>puck_vx := 5\<rparr>)
     \<or> puck_y (restPuck 1 12 16) \<noteq> puck_y ((restPuck 0 0 0)\<lparr>puck_vx := 5\<rparr>)) \<and>
   (\<exists>p' other'. ballCollision ((restPuck 0 0 0)\<lparr>puck_vx := 5\<rparr>) (restPuck 1 12 16) = Inr (p', other') \<and>
      kineticEnergy p' + kineticEnergy other' \<le> 25 / 2)"
proof -
  have ne: "puck_x (restPuck 1 12 16) \<noteq> puck_x ((restPuck 0 0 0)\<lparr>puck_vx := 5\<rparr>)
     \<or> puck_y (restPuck 1 12 16) \<noteq> puck_y ((restPuck 0 0 0)\<lparr>puck_vx := 5\<rparr>)"
    by (simp add: restPuck_def)
  have e: "kineticEnergy ((restPuck 0 0 0)\<lparr>puck_vx := 5\<rparr>) + kineticEnergy (restPuck 1 12 16) = 25 / 2"
    by (simp add: kineticEnergy_def restPuck_def)
  from collision_energy_nonincrease[of _ _ "(restPuck 0 0 0)\<lparr>puck_vx := 5\<rparr>" _ _ _ _ "restPuck 1 12 16"] ne
  have "\<exists>p' other'. ballCollision ((restPuck 0 0 0)\<lparr>puck_vx := 5\<rparr>) (restPuck 1 12 16) = Inr (p', other') \<and>
      kineticEnergy p' + kineticEnergy other'
        \<le> kineticEnergy ((restPuck 0 0 0)\<lparr>puck_vx := 5\<rparr>) + kineticEnergy (restPuck 1 12 16)"
    by blast
  then have "\<exists>p' other'. ballCollision ((restPuck 0 0 0)\<lparr>puck_vx := 5\<rparr>) (restPuck 1 12 16) = Inr (p', other') \<and>
      kineticEnergy p' + kineticEnergy other' \<le> 25 / 2"
    unfolding e .
  with ne show ?thesis by blast
qed

subsection \<open>Rounding: error bounds and evaluation\<close>

text \<open>
  \<open>fl\<close> moves a number by at most half the spacing of the doubles around it: a relative
  error of \<open>1 / 2 ^ 53\<close> in the normal range, an absolute error of \<open>1 / 2 ^ 1075\<close> below
  it. \<open>fl_eval\<close> and \<open>fl_sqrt_eval\<close> compute \<open>fl\<close> at a given number from its binade
  and its rounded significand.
\<close>

lemma roundEven_err: "\<bar>of_int (roundEven q) - q\<bar> \<le> 1 / 2"
proof -
  have "of_int \<lfloor>q\<rfloor> \<le> q" "q < of_int \<lfloor>q\<rfloor> + 1" by linarith+
  then show ?thesis by (auto simp: roundEven_def Let_def)
qed

lemma roundEven_eqI:
  assumes "\<bar>q - of_int m\<bar> < 1 / 2"
  shows "roundEven q = m"
proof (cases "of_int m \<le> q")
  case True
  with assms have f: "\<lfloor>q\<rfloor> = m" by (intro floor_unique) linarith+
  show ?thesis using assms True by (simp add: roundEven_def Let_def f)
next
  case False
  with assms have f: "\<lfloor>q\<rfloor> = m - 1" by (intro floor_unique) (simp, linarith)+
  show ?thesis using assms False by (simp add: roundEven_def Let_def f)
qed

lemma roundEven_nonneg: "0 \<le> q \<Longrightarrow> 0 \<le> roundEven q"
  by (auto simp: roundEven_def Let_def)

lemma roundEven_nonpos: "q \<le> 0 \<Longrightarrow> roundEven q \<le> 0"
proof -
  assume q: "q \<le> 0"
  have b: "of_int \<lfloor>q\<rfloor> \<le> q" "q < of_int \<lfloor>q\<rfloor> + 1" by linarith+
  have f: "\<lfloor>q\<rfloor> \<le> 0" using q by linarith
  show ?thesis
  proof (cases "\<lfloor>q\<rfloor> = 0")
    case True
    then have "q = 0" using b q by simp
    then show ?thesis by (simp add: roundEven_def)
  next
    case False
    then have "\<lfloor>q\<rfloor> \<le> - 1" using f by linarith
    then show ?thesis by (auto simp: roundEven_def Let_def)
  qed
qed

lemma ulpExp_lower: "- 1074 \<le> ulpExp x"
  by (simp add: ulpExp_def)

lemma ulpExp_upper:
  assumes "x \<noteq> 0"
  shows "\<bar>x\<bar> < 2 powi (ulpExp x + 53)"
proof -
  define k where "k = \<lfloor>log 2 \<bar>x\<bar>\<rfloor>"
  have pos: "0 < \<bar>x\<bar>" using assms by simp
  have "\<bar>x\<bar> < 2 powr real_of_int (k + 1)"
    using floor_log_eq_powr_iff[of "\<bar>x\<bar>" 2 k] pos by (simp add: k_def)
  then have a: "\<bar>x\<bar> < 2 powi (k + 1)" using powr_real_of_int'[of 2 "k + 1"] by simp
  have "k + 1 \<le> ulpExp x + 53" by (simp add: ulpExp_def k_def)
  then have "(2::real) powi (k + 1) \<le> 2 powi (ulpExp x + 53)"
    by (intro power_int_increasing) simp_all
  with a show ?thesis by linarith
qed

lemma floor_log2_bounds:
  assumes "x \<noteq> 0"
  shows "2 powi \<lfloor>log 2 \<bar>x\<bar>\<rfloor> \<le> \<bar>x\<bar>"
    and "\<bar>x\<bar> < 2 powi (\<lfloor>log 2 \<bar>x\<bar>\<rfloor> + 1)"
proof -
  define k where "k = \<lfloor>log 2 \<bar>x\<bar>\<rfloor>"
  have pos: "0 < \<bar>x\<bar>" using assms by simp
  have "2 powr real_of_int k \<le> \<bar>x\<bar> \<and> \<bar>x\<bar> < 2 powr real_of_int (k + 1)"
    using floor_log_eq_powr_iff[of "\<bar>x\<bar>" 2 k] pos by (simp add: k_def)
  then show "2 powi \<lfloor>log 2 \<bar>x\<bar>\<rfloor> \<le> \<bar>x\<bar>"
    and "\<bar>x\<bar> < 2 powi (\<lfloor>log 2 \<bar>x\<bar>\<rfloor> + 1)"
    using powr_real_of_int'[of 2 k] powr_real_of_int'[of 2 "k + 1"]
    unfolding k_def[symmetric] by simp_all
qed

lemma ulpExp_normal:
  assumes "2 powi (- 1022) \<le> \<bar>x\<bar>"
  shows "2 powi (ulpExp x + 52) \<le> \<bar>x\<bar>"
proof -
  define k where "k = \<lfloor>log 2 \<bar>x\<bar>\<rfloor>"
  have nz: "x \<noteq> 0"
  proof
    assume "x = 0"
    with assms have "(2::real) powi (- 1022) \<le> 0" by simp
    moreover have "(0::real) < 2 powi (- 1022)" by (rule zero_less_power_int) simp
    ultimately show False by linarith
  qed
  have "- 1022 \<le> k"
  proof (rule ccontr)
    assume "\<not> - 1022 \<le> k"
    then have "k + 1 \<le> - 1022" by simp
    then have "(2::real) powi (k + 1) \<le> 2 powi (- 1022)"
      by (intro power_int_increasing) simp_all
    with floor_log2_bounds(2)[OF nz] assms show False unfolding k_def by linarith
  qed
  then have "ulpExp x + 52 = k" unfolding ulpExp_def k_def[symmetric] by simp
  with floor_log2_bounds(1)[OF nz] show ?thesis unfolding k_def by simp
qed

lemma ulpExp_subnormal:
  assumes "\<bar>x\<bar> < 2 powi (- 1022)" and "x \<noteq> 0"
  shows "ulpExp x = - 1074"
proof -
  define k where "k = \<lfloor>log 2 \<bar>x\<bar>\<rfloor>"
  have "k < - 1022"
  proof (rule ccontr)
    assume "\<not> k < - 1022"
    then have "- 1022 \<le> k" by simp
    then have "(2::real) powi (- 1022) \<le> 2 powi k"
      by (intro power_int_increasing) simp_all
    with floor_log2_bounds(1)[OF assms(2)] assms(1) show False unfolding k_def by linarith
  qed
  then show ?thesis unfolding ulpExp_def k_def[symmetric] by simp
qed

lemma ulpExp_eqI:
  assumes "2 powi (e + 52) \<le> \<bar>x\<bar>" and "\<bar>x\<bar> < 2 powi (e + 53)" and "- 1074 \<le> e"
  shows "ulpExp x = e"
proof -
  have "(0::real) < 2 powi (e + 52)" by (rule zero_less_power_int) simp
  with assms(1) have pos: "0 < \<bar>x\<bar>" by linarith
  have two: "(1::real) < 2" by simp
  have "\<lfloor>log 2 \<bar>x\<bar>\<rfloor> = e + 52"
    unfolding floor_log_eq_powr_iff[of "\<bar>x\<bar>" 2 "e + 52", OF pos two]
    using powr_real_of_int'[of 2 "e + 52"] powr_real_of_int'[of 2 "e + 52 + 1"] assms
    by (simp add: add.commute add.left_commute)
  then show ?thesis using assms(3) by (simp add: ulpExp_def)
qed

lemma fl_err_ulp:
  assumes "fl x = Inr y" and "x \<noteq> 0"
  shows "\<bar>y - x\<bar> \<le> 2 powi (ulpExp x) / 2"
proof -
  define e where "e = ulpExp x"
  define q where "q = x / 2 powi e"
  have p: "(0::real) < 2 powi e" by simp
  have y: "y = of_int (roundEven q) * 2 powi e"
    using assms by (simp add: fl_def Let_def e_def q_def split: if_splits)
  have x: "x = q * 2 powi e" by (simp add: q_def)
  have "y - x = (of_int (roundEven q) - q) * 2 powi e"
    unfolding y using x by (simp add: algebra_simps)
  then have "\<bar>y - x\<bar> = \<bar>of_int (roundEven q) - q\<bar> * 2 powi e"
    by (simp add: abs_mult)
  also have "\<dots> \<le> (1 / 2) * 2 powi e"
    by (intro mult_right_mono roundEven_err) simp
  finally show ?thesis by (simp add: e_def)
qed

lemma fl_zero: "fl 0 = Inr 0" by (simp add: fl_def)

lemma half_ulp_normal:
  assumes "2 powi (- 1022) \<le> \<bar>x\<bar>"
  shows "2 powi (ulpExp x) / 2 \<le> \<bar>x\<bar> / 2 ^ 53"
proof -
  have "(2::real) powi (ulpExp x + 52) = 2 powi (ulpExp x) * 2 powi 52"
    by (rule power_int_add) simp
  then have "2 powi (ulpExp x) * 2 ^ 52 \<le> \<bar>x\<bar>"
    using ulpExp_normal[OF assms] by simp
  then show ?thesis by (simp add: field_simps)
qed

lemma fl_error_normal:
  assumes "fl x = Inr y" and "2 powi (- 1022) \<le> \<bar>x\<bar>"
  shows "\<bar>y - x\<bar> \<le> \<bar>x\<bar> / 2 ^ 53"
proof -
  have nz: "x \<noteq> 0"
  proof
    assume "x = 0"
    with assms have "(2::real) powi (- 1022) \<le> 0" by simp
    moreover have "(0::real) < 2 powi (- 1022)" by (rule zero_less_power_int) simp
    ultimately show False by linarith
  qed
  from fl_err_ulp[OF assms(1) nz] half_ulp_normal[OF assms(2)] show ?thesis by linarith
qed

lemma fl_error:
  assumes "fl x = Inr y"
  shows "\<bar>y - x\<bar> \<le> \<bar>x\<bar> / 2 ^ 53 + 2 powi (- 1075)"
proof (cases "x = 0")
  case True
  with assms show ?thesis by (simp add: fl_def)
next
  case False
  note e = fl_err_ulp[OF assms False]
  have p: "(0::real) \<le> 2 powi (- 1075)" by (rule zero_le_power_int) simp
  have a: "0 \<le> \<bar>x\<bar> / 2 ^ 53" by simp
  show ?thesis
  proof (cases "2 powi (- 1022) \<le> \<bar>x\<bar>")
    case True
    from fl_error_normal[OF assms True] p show ?thesis by linarith
  next
    case False
    then have "ulpExp x = - 1074" using ulpExp_subnormal[of x] \<open>x \<noteq> 0\<close> by simp
    moreover have "(2::real) powi (- 1074) / 2 = 2 powi (- 1075)"
      using power_int_add[of "2::real" "- 1075" 1] by simp
    ultimately have "\<bar>y - x\<bar> \<le> 2 powi (- 1075)" using e by simp
    with a show ?thesis by linarith
  qed
qed

lemma fl_le_max: "fl x = Inr y \<Longrightarrow> \<bar>y\<bar> \<le> DBL_MAX"
  by (auto simp: fl_def Let_def DBL_MAX_def split: if_splits)

lemma fl_nonneg: "fl x = Inr y \<Longrightarrow> 0 \<le> x \<Longrightarrow> 0 \<le> y"
  using roundEven_nonneg[of "x / 2 powi ulpExp x"]
  by (auto simp: fl_def Let_def split: if_splits)

lemma fl_nonpos: "fl x = Inr y \<Longrightarrow> x \<le> 0 \<Longrightarrow> y \<le> 0"
  using roundEven_nonpos[of "x / 2 powi ulpExp x"]
  by (auto simp: fl_def Let_def mult_le_0_iff divide_le_0_iff split: if_splits)

lemma fl_total:
  assumes "\<bar>x\<bar> \<le> 2 ^ 1023"
  shows "\<exists>y. fl x = Inr y"
proof (cases "x = 0")
  case True
  then show ?thesis by (simp add: fl_def)
next
  case False
  define e where "e = ulpExp x"
  define y :: real where "y = of_int (roundEven (x / 2 powi e)) * 2 powi e"
  have two: "(1::real) < 2" by simp
  have pos: "0 < \<bar>x\<bar>" using False by simp
  define k where "k = \<lfloor>log 2 \<bar>x\<bar>\<rfloor>"
  have "2 powr real_of_int k \<le> \<bar>x\<bar>"
    using floor_log_eq_powr_iff[of "\<bar>x\<bar>" 2 k] pos by (simp add: k_def)
  then have kx: "2 powi k \<le> \<bar>x\<bar>" using powr_real_of_int'[of 2 k] by simp
  have "k \<le> 1023"
  proof (rule ccontr)
    assume "\<not> k \<le> 1023"
    then have "1024 \<le> k" by simp
    then have "(2::real) powi 1024 \<le> 2 powi k" by (intro power_int_increasing) simp_all
    with kx assms show False by simp
  qed
  then have e: "e \<le> 971" unfolding e_def ulpExp_def k_def[symmetric] by simp
  have "\<bar>y - x\<bar> \<le> 2 powi e / 2"
  proof -
    have x: "x = (x / 2 powi e) * 2 powi e" by simp
    have "y - x = (of_int (roundEven (x / 2 powi e)) - x / 2 powi e) * 2 powi e"
      unfolding y_def using x by (simp add: algebra_simps)
    then have "\<bar>y - x\<bar> = \<bar>of_int (roundEven (x / 2 powi e)) - x / 2 powi e\<bar> * 2 powi e"
      by (simp add: abs_mult)
    also have "\<dots> \<le> (1 / 2) * 2 powi e"
      by (intro mult_right_mono roundEven_err) simp
    finally show ?thesis by simp
  qed
  moreover have "(2::real) powi e \<le> 2 powi 971"
    using e by (intro power_int_increasing) simp_all
  ultimately have "\<bar>y - x\<bar> \<le> 2 powi 971 / 2" by linarith
  then have "\<bar>y - x\<bar> \<le> 2 ^ 971 / 2" by simp
  then have "\<bar>y\<bar> \<le> 2 ^ 1023 + 2 ^ 971 / 2" using assms by linarith
  also have "\<dots> \<le> DBL_MAX" by (simp add: DBL_MAX_def)
  finally have "\<not> DBL_MAX < \<bar>y\<bar>" by simp
  then show ?thesis using False by (simp add: fl_def Let_def e_def y_def)
qed

lemma fl_eval:
  assumes lo: "2 ^ 52 \<le> \<bar>x\<bar> * 2 ^ n" and hi: "\<bar>x\<bar> * 2 ^ n < 2 ^ 53"
    and n: "n \<le> 1074"
    and r: "\<bar>x * 2 ^ n - of_int m\<bar> < 1 / 2"
  shows "fl x = Inr (of_int m / 2 ^ n)"
proof -
  have nz: "x \<noteq> 0"
  proof
    assume "x = 0"
    with lo show False by simp
  qed
  have pn: "(0::real) < 2 ^ n" by simp
  have p: "(2::real) powi (- int n) = 1 / 2 ^ n"
    by (simp add: power_int_minus field_simps)
  have "(2::real) powi (- int n + 52) = 2 powi (- int n) * 2 powi 52"
    by (rule power_int_add) simp
  then have a: "(2::real) powi (- int n + 52) = 2 ^ 52 / 2 ^ n"
    unfolding p by simp
  have "(2::real) powi (- int n + 53) = 2 powi (- int n) * 2 powi 53"
    by (rule power_int_add) simp
  then have b: "(2::real) powi (- int n + 53) = 2 ^ 53 / 2 ^ n"
    unfolding p by simp
  have e: "ulpExp x = - int n"
  proof (rule ulpExp_eqI)
    show "2 powi (- int n + 52) \<le> \<bar>x\<bar>"
      unfolding a using lo pn by (simp only: pos_divide_le_eq)
    show "\<bar>x\<bar> < 2 powi (- int n + 53)"
      unfolding b using hi pn by (simp only: pos_less_divide_eq)
    show "- 1074 \<le> - int n" using n by simp
  qed
  have q: "x / 2 powi (- int n) = x * 2 ^ n" unfolding p by simp
  have re: "roundEven (x * 2 ^ n) = m" by (rule roundEven_eqI[OF r])
  have "\<bar>real_of_int m\<bar> \<le> \<bar>x * 2 ^ n - of_int m\<bar> + \<bar>x * 2 ^ n\<bar>" by linarith
  also have "\<bar>x * 2 ^ n\<bar> = \<bar>x\<bar> * 2 ^ n" by (simp add: abs_mult)
  finally have "\<bar>real_of_int m\<bar> < 2 ^ 53 + 1 / 2" using r hi by linarith
  then have "real_of_int \<bar>m\<bar> < real_of_int (2 ^ 53 + 1)" by simp
  then have "\<bar>m\<bar> < 2 ^ 53 + 1" by (simp only: of_int_less_iff)
  then have "\<bar>m\<bar> \<le> 2 ^ 53" by simp
  then have "real_of_int \<bar>m\<bar> \<le> real_of_int (2 ^ 53)" by (simp only: of_int_le_iff)
  then have mb: "\<bar>real_of_int m\<bar> \<le> 2 ^ 53" by simp
  have ge1: "(1::real) \<le> 2 ^ n" by simp
  have "\<bar>real_of_int m\<bar> / 2 ^ n \<le> \<bar>real_of_int m\<bar> / 1"
    by (rule divide_left_mono) (use ge1 in simp_all)
  then have "\<bar>real_of_int m * (1 / 2 ^ n)\<bar> \<le> \<bar>real_of_int m\<bar>"
    by (simp add: abs_mult)
  also have "\<dots> \<le> DBL_MAX" using mb by (simp add: DBL_MAX_def)
  finally have nov: "\<not> DBL_MAX < \<bar>real_of_int m * (1 / 2 ^ n)\<bar>" by simp
  show ?thesis
    unfolding fl_def Let_def e q re unfolding p using nz nov by simp
qed

lemma tiny: "(2::real) powi (- 1075) \<le> 1 / 2 ^ 60"
proof -
  have "(2::real) powi (- 1075) \<le> 2 powi (- 60)"
    by (intro power_int_increasing) simp_all
  then show ?thesis by (simp add: power_int_minus field_simps)
qed

lemma fl_error60:
  assumes "fl x = Inr y"
  shows "\<bar>y - x\<bar> \<le> \<bar>x\<bar> / 2 ^ 53 + 1 / 2 ^ 60"
  using fl_error[OF assms] tiny by linarith

lemma quotient_normal:
  assumes "fl r = Inr speed" and "50 < speed"
  shows "2 powi (- 1022) \<le> \<bar>50 / speed\<bar>"
proof -
  have sp: "0 < speed" using assms(2) by linarith
  have "speed \<le> DBL_MAX" using fl_le_max[OF assms(1)] by linarith
  then have "2 powi (- 1022) * speed \<le> 2 powi (- 1022) * DBL_MAX"
    by (intro mult_left_mono) simp_all
  also have "\<dots> \<le> 50" by (simp add: DBL_MAX_def power_int_minus field_simps)
  finally have "2 powi (- 1022) \<le> 50 / speed" using sp by (simp add: pos_le_divide_eq)
  then show ?thesis using sp by simp
qed

lemma cap_magnitude:
  assumes sx: "fl (vx * vx) = Inr sx" and sy: "fl (vy * vy) = Inr sy"
    and s: "fl (sx + sy) = Inr s" and sp: "fl (sqrt s) = Inr speed"
    and big: "50 < speed"
    and ra: "fl (50 / speed) = Inr ratio"
    and wx: "fl (vx * ratio) = Inr wx" and wy: "fl (vy * ratio) = Inr wy"
  shows "0 < ratio \<and> \<bar>sqrt (wx * wx + wy * wy) - 50\<bar> \<le> 50 / 2 ^ 49"
proof -
  define N2 where "N2 = vx * vx + vy * vy"
  define N where "N = sqrt N2"
  define t where "t = sx + sy"
  define r where "r = sqrt s"
  have N2nn: "0 \<le> N2" by (simp add: N2_def)
  have Nnn: "0 \<le> N" by (simp add: N_def N2nn)
  have NN: "N * N = N2" using N2nn by (simp add: N_def)
  have sxnn: "0 \<le> sx" by (rule fl_nonneg[OF sx]) simp
  have synn: "0 \<le> sy" by (rule fl_nonneg[OF sy]) simp
  have tnn: "0 \<le> t" using sxnn synn by (simp add: t_def)
  have snn: "0 \<le> s" using fl_nonneg[OF s] tnn by (simp add: t_def)
  have rnn: "0 \<le> r" using snn by (simp add: r_def)
  have rr: "r * r = s" using snn by (simp add: r_def)
  have ex: "\<bar>sx - vx * vx\<bar> \<le> \<bar>vx * vx\<bar> / 2 ^ 53 + 1 / 2 ^ 60" by (rule fl_error60[OF sx])
  have ey: "\<bar>sy - vy * vy\<bar> \<le> \<bar>vy * vy\<bar> / 2 ^ 53 + 1 / 2 ^ 60" by (rule fl_error60[OF sy])
  have et: "\<bar>t - N2\<bar> \<le> N2 / 2 ^ 53 + 2 / 2 ^ 60"
  proof -
    have a: "\<bar>vx * vx\<bar> = vx * vx" "\<bar>vy * vy\<bar> = vy * vy" by simp_all
    show ?thesis using ex ey unfolding a t_def N2_def by (simp add: add_divide_distrib) 
  qed
  have es: "\<bar>s - t\<bar> \<le> t / 2 ^ 53 + 1 / 2 ^ 60"
    using fl_error60[OF s] tnn unfolding t_def by simp
  have er: "\<bar>speed - r\<bar> \<le> r / 2 ^ 53 + 1 / 2 ^ 60"
    using fl_error60[OF sp] rnn unfolding r_def by simp
  have r49: "49 < r" using er big by simp
  have "49 * 49 < r * r" using r49 by (intro mult_strict_mono) simp_all
  then have s1: "2401 < s" unfolding rr by simp
  have t1: "2400 < t" using es s1 by simp
  have n1: "2399 < N2" using et t1 by simp
  have sN: "s \<le> (1 + 3 / 2 ^ 53) * N2" "(1 - 3 / 2 ^ 53) * N2 \<le> s"
    using et es t1 n1 by simp_all
  have rle: "r \<le> (1 + 3 / 2 ^ 53) * N"
    unfolding r_def
  proof (rule real_le_lsqrt)
    show "0 \<le> (1 + 3 / 2 ^ 53) * N" using Nnn by simp
    have "((1 + 3 / 2 ^ 53) * N)\<^sup>2 = (1 + 3 / 2 ^ 53)\<^sup>2 * N2"
      unfolding NN[symmetric] by (simp add: power2_eq_square)
    moreover have "(1 + 3 / 2 ^ 53) * N2 \<le> (1 + 3 / 2 ^ 53)\<^sup>2 * N2"
      using N2nn by (intro mult_right_mono) (simp_all add: power2_eq_square)
    ultimately show "s \<le> ((1 + 3 / 2 ^ 53) * N)\<^sup>2" using sN(1) by linarith
  qed
  have rge: "(1 - 3 / 2 ^ 53) * N \<le> r"
    unfolding r_def
  proof (rule real_le_rsqrt)
    have "((1 - 3 / 2 ^ 53) * N)\<^sup>2 = (1 - 3 / 2 ^ 53)\<^sup>2 * N2"
      unfolding NN[symmetric] by (simp add: power2_eq_square)
    moreover have "(1 - 3 / 2 ^ 53)\<^sup>2 * N2 \<le> (1 - 3 / 2 ^ 53) * N2"
      using N2nn by (intro mult_right_mono) (simp_all add: power2_eq_square)
    ultimately show "((1 - 3 / 2 ^ 53) * N)\<^sup>2 \<le> s" using sN(2) by linarith
  qed
  have spN: "speed \<le> (1 + 5 / 2 ^ 53) * N" "(1 - 5 / 2 ^ 53) * N \<le> speed"
    using er rle rge r49 by simp_all
  have sppos: "0 < speed" using big by linarith
  define q where "q = 50 / speed"
  have qpos: "0 < q" using sppos by (simp add: q_def)
  have qs: "q * speed = 50" using sppos by (simp add: q_def)
  have "\<bar>ratio - q\<bar> \<le> \<bar>q\<bar> / 2 ^ 53"
    unfolding q_def by (rule fl_error_normal[OF ra quotient_normal[OF sp big]])
  then have eq: "\<bar>ratio - q\<bar> \<le> q / 2 ^ 53" using qpos by simp
  have eq1: "ratio \<le> (1 + 1 / 2 ^ 53) * q" and eq2: "(1 - 1 / 2 ^ 53) * q \<le> ratio"
    using eq[unfolded abs_le_iff] by (simp_all add: algebra_simps)
  have rpos: "0 < ratio"
  proof -
    have "0 < (1 - 1 / 2 ^ 53) * q" using qpos by (intro mult_pos_pos) simp_all
    with eq2 show ?thesis by linarith
  qed
  have "ratio * speed \<le> ((1 + 1 / 2 ^ 53) * q) * speed"
    using eq1 sppos by (intro mult_right_mono) simp_all
  then have rs1: "ratio * speed \<le> (1 + 1 / 2 ^ 53) * 50" using qs by (simp add: mult.assoc)
  have "((1 - 1 / 2 ^ 53) * q) * speed \<le> ratio * speed"
    using eq2 sppos by (intro mult_right_mono) simp_all
  then have rs2: "(1 - 1 / 2 ^ 53) * 50 \<le> ratio * speed" using qs by (simp add: mult.assoc)
  define M where "M = ratio * N"
  have "ratio * ((1 - 5 / 2 ^ 53) * N) \<le> ratio * speed"
    using spN(2) rpos by (intro mult_left_mono) simp_all
  then have "(1 - 5 / 2 ^ 53) * M \<le> (1 + 1 / 2 ^ 53) * 50"
    using rs1 by (simp add: M_def mult_ac)
  then have M1: "M \<le> 50 * (1 + 7 / 2 ^ 53)" by simp
  have "ratio * speed \<le> ratio * ((1 + 5 / 2 ^ 53) * N)"
    using spN(1) rpos by (intro mult_left_mono) simp_all
  then have "(1 - 1 / 2 ^ 53) * 50 \<le> (1 + 5 / 2 ^ 53) * M"
    using rs2 by (simp add: M_def mult_ac)
  then have M2: "50 * (1 - 7 / 2 ^ 53) \<le> M" by simp
  define z where "z = Complex (vx * ratio) (vy * ratio)"
  define w where "w = Complex wx wy"
  have "cmod z = sqrt (ratio * ratio * N2)"
    by (simp add: z_def complex_norm N2_def power2_eq_square algebra_simps)
  also have "\<dots> = ratio * N"
    using rpos by (simp add: real_sqrt_mult N_def)
  finally have cz: "cmod z = M" by (simp add: M_def)
  have cw: "cmod w = sqrt (wx * wx + wy * wy)"
    by (simp add: w_def complex_norm power2_eq_square)
  have ewx: "\<bar>wx - vx * ratio\<bar> \<le> \<bar>vx * ratio\<bar> / 2 ^ 53 + 1 / 2 ^ 60" by (rule fl_error60[OF wx])
  have ewy: "\<bar>wy - vy * ratio\<bar> \<le> \<bar>vy * ratio\<bar> / 2 ^ 53 + 1 / 2 ^ 60" by (rule fl_error60[OF wy])
  have "\<bar>vx * ratio\<bar> \<le> cmod z" using abs_Re_le_cmod[of z] by (simp add: z_def)
  moreover have "\<bar>vy * ratio\<bar> \<le> cmod z" using abs_Im_le_cmod[of z] by (simp add: z_def)
  moreover have "cmod (w - z) \<le> \<bar>wx - vx * ratio\<bar> + \<bar>wy - vy * ratio\<bar>"
    using cmod_le[of "w - z"] by (simp add: w_def z_def)
  ultimately have d: "cmod (w - z) \<le> 2 * M / 2 ^ 53 + 2 / 2 ^ 60"
    using ewx ewy unfolding cz by simp
  have "\<bar>cmod w - cmod z\<bar> \<le> cmod (w - z)" by (rule norm_triangle_ineq3)
  then have "\<bar>cmod w - M\<bar> \<le> 2 * M / 2 ^ 53 + 2 / 2 ^ 60" using d cz by simp
  then have up: "cmod w \<le> M + (2 * M / 2 ^ 53 + 2 / 2 ^ 60)"
    and lo: "M - (2 * M / 2 ^ 53 + 2 / 2 ^ 60) \<le> cmod w"
    unfolding abs_le_iff by simp_all
  have "cmod w - 50 \<le> 50 / 2 ^ 49" using up M1 by simp
  moreover have "- (cmod w - 50) \<le> 50 / 2 ^ 49" using lo M2 by simp
  ultimately have "\<bar>cmod w - 50\<bar> \<le> 50 / 2 ^ 49" unfolding abs_le_iff by blast
  then show ?thesis using rpos cw by simp
qed

lemma fl_bounded:
  assumes "\<bar>x\<bar> \<le> 2 ^ 1023"
  shows "\<exists>y. fl x = Inr y \<and> \<bar>y\<bar> \<le> 2 * \<bar>x\<bar> + 1"
proof -
  from fl_total[OF assms] obtain y where y: "fl x = Inr y" by blast
  have "\<bar>x\<bar> / 2 ^ 53 \<le> \<bar>x\<bar> / 1" by (intro divide_left_mono) simp_all
  with fl_error60[OF y] have "\<bar>y\<bar> \<le> 2 * \<bar>x\<bar> + 1" by simp
  with y show ?thesis by blast
qed

lemma fl_sqrt_eval:
  assumes m: "2 ^ 52 < m" "m < 2 ^ 53 - 1" and n: "n \<le> 1074"
    and lo: "(of_int m - 1 / 2) * (of_int m - 1 / 2) < s * 4 ^ n"
    and hi: "s * 4 ^ n < (of_int m + 1 / 2) * (of_int m + 1 / 2)"
  shows "fl (sqrt s) = Inr (of_int m / 2 ^ n)"
proof -
  define R where "R = sqrt s * 2 ^ n"
  have four: "(4::real) ^ n = 2 ^ n * 2 ^ n"
    by (simp add: power_mult_distrib[symmetric])
  have "sqrt ((4::real) ^ n) = 2 ^ n"
    unfolding four by simp
  then have R: "R = sqrt (s * 4 ^ n)" by (simp add: R_def real_sqrt_mult)
  have mr: "(2::real) ^ 52 < of_int m" "real_of_int m < 2 ^ 53 - 1"
  proof -
    have "real_of_int (2 ^ 52) < of_int m" using m(1) by (simp only: of_int_less_iff)
    then show "(2::real) ^ 52 < of_int m" by simp
    have "real_of_int m < of_int (2 ^ 53 - 1)" using m(2) by (simp only: of_int_less_iff)
    then show "real_of_int m < 2 ^ 53 - 1" by simp
  qed
  have a: "of_int m - 1 / 2 < R"
    unfolding R using lo by (intro real_less_rsqrt) (simp add: power2_eq_square)
  have b: "R < of_int m + 1 / 2"
    unfolding R using hi mr by (intro real_less_lsqrt) (simp_all add: power2_eq_square)
  have Rpos: "0 < R" using a mr by simp
  then have spos: "0 < sqrt s"
    unfolding R_def by (simp add: zero_less_mult_iff)
  have ab: "\<bar>sqrt s\<bar> * 2 ^ n = R" using spos by (simp add: R_def)
  show ?thesis
  proof (rule fl_eval)
    show "2 ^ 52 \<le> \<bar>sqrt s\<bar> * 2 ^ n" unfolding ab using a mr by simp
    show "\<bar>sqrt s\<bar> * 2 ^ n < 2 ^ 53" unfolding ab using b mr by simp
    show "n \<le> 1074" by (rule n)
    show "\<bar>sqrt s * 2 ^ n - real_of_int m\<bar> < 1 / 2"
      unfolding R_def[symmetric] using a b by linarith
  qed
qed

lemma fl_03: "fl (3 / 10) = Inr (5404319552844595 / 2 ^ 54)"
  using fl_eval[of "3 / 10" 54 5404319552844595] by simp

lemma raw_sum_bound:
  fixes A B d :: real
  assumes B: "B \<le> A + (A / 2 ^ 53 + 1 / 2 ^ 60)" and Ann: "0 \<le> A" and Bnn: "0 \<le> B"
   and d: "0 \<le> d" "d \<le> 1"
  shows "(B * d / 2 ^ 53 + 1 / 2 ^ 60) + (A / 2 ^ 53 + 1 / 2 ^ 60) * d + A / 2 ^ 54 \<le> A / 2 ^ 51 + 1 / 2 ^ 58"
proof -
  have "B * d \<le> B * 1" using d Bnn by (intro mult_left_mono) simp_all
  then have a: "B * d / 2 ^ 53 \<le> B / 2 ^ 53" by (simp add: divide_right_mono)
  have "(A / 2 ^ 53 + 1 / 2 ^ 60) * d \<le> (A / 2 ^ 53 + 1 / 2 ^ 60) * 1"
    using d Ann by (intro mult_left_mono) simp_all
  then have b: "(A / 2 ^ 53 + 1 / 2 ^ 60) * d \<le> A / 2 ^ 53 + 1 / 2 ^ 60" by simp
  have c: "B / 2 ^ 53 \<le> (A + (A / 2 ^ 53 + 1 / 2 ^ 60)) / 2 ^ 53"
    using B by (simp add: divide_right_mono)
  have "A / 2 ^ 53 \<le> A" using Ann by (simp add: field_simps)
  then have e: "(A + (A / 2 ^ 53 + 1 / 2 ^ 60)) / 2 ^ 53 \<le> (2 * A + 1 / 2 ^ 60) / 2 ^ 53"
    by (intro divide_right_mono) simp_all
  have f: "(2 * A + 1 / 2 ^ 60) / 2 ^ 53 = A / 2 ^ 52 + 1 / 2 ^ 113"
    by (simp add: add_divide_distrib)
  have g: "A / 2 ^ 52 + A / 2 ^ 53 + A / 2 ^ 54 \<le> A / 2 ^ 51" using Ann by simp
  have h: "(1::real) / 2 ^ 113 + 1 / 2 ^ 60 + 1 / 2 ^ 60 \<le> 1 / 2 ^ 58" by simp
  show ?thesis using a b c e f g h by linarith
qed


lemma raw_velocity_error:
  assumes dx: "fl a = Inr dx" and d: "fl (3 / 10) = Inr d" and v: "fl (dx * d) = Inr v"
  shows "\<bar>v - a * (3 / 10)\<bar> \<le> \<bar>a\<bar> / 2 ^ 51 + 1 / 2 ^ 58"
proof -
  have dv: "d = 5404319552844595 / 2 ^ 54" using d fl_03 by simp
  define A where "A = \<bar>a\<bar>"
  define B where "B = \<bar>dx\<bar>"
  have e1: "\<bar>dx - a\<bar> \<le> A / 2 ^ 53 + 1 / 2 ^ 60" unfolding A_def by (rule fl_error60[OF dx])
  have d0: "0 \<le> d" unfolding dv by simp
  have "\<bar>dx * d\<bar> = B * d" unfolding B_def using d0 by (simp add: abs_mult)
  then have e3: "\<bar>v - dx * d\<bar> \<le> B * d / 2 ^ 53 + 1 / 2 ^ 60" using fl_error60[OF v] by simp
  have B: "B \<le> A + (A / 2 ^ 53 + 1 / 2 ^ 60)" using e1 unfolding A_def B_def by linarith
  have Ann: "0 \<le> A" by (simp add: A_def)
  have e2: "\<bar>dx * d - a * d\<bar> \<le> (A / 2 ^ 53 + 1 / 2 ^ 60) * d"
  proof -
    have "dx * d - a * d = (dx - a) * d" by (simp add: algebra_simps)
    then have "\<bar>dx * d - a * d\<bar> = \<bar>dx - a\<bar> * d" using d0 by (simp add: abs_mult)
    also have "\<dots> \<le> (A / 2 ^ 53 + 1 / 2 ^ 60) * d" using e1 d0 by (intro mult_right_mono)
    finally show ?thesis .
  qed
  have e4: "\<bar>a * d - a * (3 / 10)\<bar> \<le> A / 2 ^ 54"
  proof -
    have "a * d - a * (3 / 10) = a * (d - 3 / 10)" by (simp add: algebra_simps)
    then have "\<bar>a * d - a * (3 / 10)\<bar> = A * \<bar>d - 3 / 10\<bar>" by (simp add: abs_mult A_def)
    also have "\<dots> \<le> A * (1 / 2 ^ 54)" using Ann unfolding dv by (intro mult_left_mono) simp_all
    finally show ?thesis by simp
  qed
  have "\<bar>v - a * (3 / 10)\<bar> \<le> \<bar>v - dx * d\<bar> + \<bar>dx * d - a * d\<bar> + \<bar>a * d - a * (3 / 10)\<bar>" by linarith
  also have "\<dots> \<le> (B * d / 2 ^ 53 + 1 / 2 ^ 60) + (A / 2 ^ 53 + 1 / 2 ^ 60) * d + A / 2 ^ 54"
    using e3 e2 e4 by linarith
  also have "\<dots> \<le> A / 2 ^ 51 + 1 / 2 ^ 58"
    by (rule raw_sum_bound[OF B Ann _ d0]) (simp_all add: B_def dv)
  finally show ?thesis unfolding A_def .
qed

lemma launch_total:
  assumes a: "\<bar>a\<bar> \<le> 2 ^ 500" and b: "\<bar>b\<bar> \<le> 2 ^ 500"
  shows "\<exists>d dx vx dy vy sx sy s speed.
           fl (3 / 10) = Inr d \<and> fl a = Inr dx \<and> fl (dx * d) = Inr vx \<and>
           fl b = Inr dy \<and> fl (dy * d) = Inr vy \<and>
           fl (vx * vx) = Inr sx \<and> fl (vy * vy) = Inr sy \<and> fl (sx + sy) = Inr s \<and>
           fl (sqrt s) = Inr speed \<and>
           (50 < speed \<longrightarrow>
              (\<exists>ratio wx wy. fl (50 / speed) = Inr ratio \<and> fl (vx * ratio) = Inr wx \<and>
                 fl (vy * ratio) = Inr wy))"
proof -
  define d :: real where "d = 5404319552844595 / 2 ^ 54"
  have d: "fl (3 / 10) = Inr d" unfolding d_def by (rule fl_03)
  have d1: "\<bar>d\<bar> \<le> 1" unfolding d_def by simp
  have comp: "\<exists>dx vx. fl c = Inr dx \<and> fl (dx * d) = Inr vx \<and> \<bar>vx\<bar> \<le> 2 ^ 504"
    if c: "\<bar>c\<bar> \<le> 2 ^ 500" for c
  proof -
    have "\<bar>c\<bar> \<le> 2 ^ 1023" using c by simp
    from fl_bounded[OF this] obtain dx where dx: "fl c = Inr dx" "\<bar>dx\<bar> \<le> 2 * \<bar>c\<bar> + 1"
      by blast
    have dxb: "\<bar>dx\<bar> \<le> 2 ^ 502" using dx(2) c by simp
    have "\<bar>dx * d\<bar> \<le> \<bar>dx\<bar> * 1" unfolding abs_mult using d1 by (intro mult_left_mono) simp_all
    then have pb: "\<bar>dx * d\<bar> \<le> 2 ^ 502" using dxb by simp
    then have "\<bar>dx * d\<bar> \<le> 2 ^ 1023" by simp
    from fl_bounded[OF this] obtain vx where vx: "fl (dx * d) = Inr vx" "\<bar>vx\<bar> \<le> 2 * \<bar>dx * d\<bar> + 1"
      by blast
    have "\<bar>vx\<bar> \<le> 2 ^ 504" using vx(2) pb by simp
    with dx(1) vx(1) show ?thesis by blast
  qed
  from comp[OF a] obtain dx vx where x: "fl a = Inr dx" "fl (dx * d) = Inr vx" "\<bar>vx\<bar> \<le> 2 ^ 504"
    by blast
  from comp[OF b] obtain dy vy where y: "fl b = Inr dy" "fl (dy * d) = Inr vy" "\<bar>vy\<bar> \<le> 2 ^ 504"
    by blast
  have sq: "\<exists>sv. fl (v * v) = Inr sv \<and> 0 \<le> sv \<and> sv \<le> 2 ^ 1010" if v: "\<bar>v\<bar> \<le> 2 ^ 504" for v
  proof -
    have "\<bar>v\<bar> * \<bar>v\<bar> \<le> 2 ^ 504 * 2 ^ 504" using v by (intro mult_mono) simp_all
    then have vb: "\<bar>v * v\<bar> \<le> 2 ^ 1008" by (simp add: abs_mult)
    then have "\<bar>v * v\<bar> \<le> 2 ^ 1023" by simp
    from fl_bounded[OF this] obtain sv where sv: "fl (v * v) = Inr sv" "\<bar>sv\<bar> \<le> 2 * \<bar>v * v\<bar> + 1"
      by blast
    have "0 \<le> sv" by (rule fl_nonneg[OF sv(1)]) simp
    moreover have "sv \<le> 2 ^ 1010" using sv(2) vb by simp
    ultimately show ?thesis using sv(1) by blast
  qed
  from sq[OF x(3)] obtain sx where sx: "fl (vx * vx) = Inr sx" "0 \<le> sx" "sx \<le> 2 ^ 1010" by blast
  from sq[OF y(3)] obtain sy where sy: "fl (vy * vy) = Inr sy" "0 \<le> sy" "sy \<le> 2 ^ 1010" by blast
  have tb: "\<bar>sx + sy\<bar> \<le> 2 ^ 1011" using sx sy by simp
  then have "\<bar>sx + sy\<bar> \<le> 2 ^ 1023" by simp
  from fl_bounded[OF this] obtain s where s: "fl (sx + sy) = Inr s" "\<bar>s\<bar> \<le> 2 * \<bar>sx + sy\<bar> + 1"
    by blast
  have snn: "0 \<le> s" by (rule fl_nonneg[OF s(1)]) (use sx sy in simp)
  have "s \<le> 2 * (sx + sy) + 1" using s(2) snn sx(2) sy(2) by simp
  moreover have "sx + sy \<le> 2 ^ 1011" using sx sy by simp
  ultimately have sb: "s \<le> 2 ^ 1014" by simp
  have "sqrt s \<le> 2 ^ 507"
    by (rule real_le_lsqrt) (use sb in \<open>simp_all add: power2_eq_square\<close>)
  then have "\<bar>sqrt s\<bar> \<le> 2 ^ 1023" using snn by simp
  from fl_total[OF this] obtain speed where speed: "fl (sqrt s) = Inr speed" by blast
  have cap: "\<exists>ratio wx wy. fl (50 / speed) = Inr ratio \<and> fl (vx * ratio) = Inr wx \<and>
                 fl (vy * ratio) = Inr wy" if big: "50 < speed"
  proof -
    have "\<bar>50 / speed\<bar> \<le> 1" using big by simp
    then have q1: "\<bar>50 / speed\<bar> \<le> 2 ^ 1023" by simp
    from fl_bounded[OF q1] obtain ratio where ratio: "fl (50 / speed) = Inr ratio"
      "\<bar>ratio\<bar> \<le> 2 * \<bar>50 / speed\<bar> + 1" by blast
    have rb: "\<bar>ratio\<bar> \<le> 3" using ratio(2) \<open>\<bar>50 / speed\<bar> \<le> 1\<close> by simp
    have pr: "\<bar>v * ratio\<bar> \<le> 2 ^ 1023" if v: "\<bar>v\<bar> \<le> 2 ^ 504" for v
    proof -
      have "\<bar>v\<bar> * \<bar>ratio\<bar> \<le> 2 ^ 504 * 3" using v rb by (intro mult_mono) simp_all
      then show ?thesis by (simp add: abs_mult)
    qed
    from fl_total[OF pr[OF x(3)]] obtain wx where wx: "fl (vx * ratio) = Inr wx" by blast
    from fl_total[OF pr[OF y(3)]] obtain wy where wy: "fl (vy * ratio) = Inr wy" by blast
    from ratio(1) wx wy show ?thesis by blast
  qed
  from d x(1,2) y(1,2) sx(1) sy(1) s(1) speed cap show ?thesis by blast
qed

subsection \<open>Release of a drag session\<close>

lemma fl_not_TypeError: "fl x \<noteq> Inl TypeError"
  by (simp add: fl_def Let_def)

lemma handleEnd_capped:
  assumes "map_of (activeTouches g) k = Some t" and "anchor t = Some (ax, ay)"
    and "puckIndex t < length (pucks g)"
    and "fl (3 / 10) = Inr d"
    and "fl (ax - puck_x (pucks g ! puckIndex t)) = Inr dx" and "fl (dx * d) = Inr vx"
    and "fl (ay - puck_y (pucks g ! puckIndex t)) = Inr dy" and "fl (dy * d) = Inr vy"
    and "fl (vx * vx) = Inr sx" and "fl (vy * vy) = Inr sy" and "fl (sx + sy) = Inr s"
    and "fl (sqrt s) = Inr speed" and "50 < speed"
    and "fl (50 / speed) = Inr ratio" and "fl (vx * ratio) = Inr wx"
    and "fl (vy * ratio) = Inr wy"
  shows "handleEnd k g =
           Inr (g\<lparr>pucks := (pucks g)[puckIndex t :=
                        (pucks g ! puckIndex t)\<lparr>puck_vx := wx, puck_vy := wy\<rparr>],
                   activeTouches := AList.delete k (activeTouches g)\<rparr>)"
  using assms by (simp add: handleEnd_def Let_def thenE_def DRAG_FORCE_def MAX_SPEED_def)

lemma handleEnd_uncapped:
  assumes "map_of (activeTouches g) k = Some t" and "anchor t = Some (ax, ay)"
    and "puckIndex t < length (pucks g)"
    and "fl (3 / 10) = Inr d"
    and "fl (ax - puck_x (pucks g ! puckIndex t)) = Inr dx" and "fl (dx * d) = Inr vx"
    and "fl (ay - puck_y (pucks g ! puckIndex t)) = Inr dy" and "fl (dy * d) = Inr vy"
    and "fl (vx * vx) = Inr sx" and "fl (vy * vy) = Inr sy" and "fl (sx + sy) = Inr s"
    and "fl (sqrt s) = Inr speed" and "\<not> 50 < speed"
  shows "handleEnd k g =
           Inr (g\<lparr>pucks := (pucks g)[puckIndex t :=
                        (pucks g ! puckIndex t)\<lparr>puck_vx := vx, puck_vy := vy\<rparr>],
                   activeTouches := AList.delete k (activeTouches g)\<rparr>)"
  using assms by (simp add: handleEnd_def Let_def thenE_def DRAG_FORCE_def MAX_SPEED_def)

lemma handleEnd_Inr:
  assumes "handleEnd k g = Inr g'"
  shows "(map_of (activeTouches g) k = None \<and> g' = g) \<or>
         (\<exists>t. map_of (activeTouches g) k = Some t \<and> anchor t = None \<and>
              g' = g\<lparr>activeTouches := AList.delete k (activeTouches g)\<rparr>) \<or>
         (\<exists>t p2. map_of (activeTouches g) k = Some t \<and> puckIndex t < length (pucks g) \<and>
              g' = g\<lparr>pucks := (pucks g)[puckIndex t := p2],
                     activeTouches := AList.delete k (activeTouches g)\<rparr>)"
  using assms
  by (auto simp: handleEnd_def Let_def thenE_def split: option.splits if_splits sum.splits)

lemma handleEnd_TypeError:
  assumes "handleEnd k g = Inl TypeError"
  shows "\<exists>t. map_of (activeTouches g) k = Some t \<and> length (pucks g) \<le> puckIndex t"
  using assms fl_not_TypeError
  by (auto simp: handleEnd_def Let_def thenE_def split: option.splits if_splits sum.splits)

lemma handleEnd_launchGame:
  "handleEnd Mouse launchGame =
     Inr (launchGame\<lparr>pucks := [\<lparr>puck_id = 0, puck_x = 200, puck_y = 10, puck_vx = 0,
                                  puck_vy = 50, puck_color = ''#00ff00''\<rparr>],
                       activeTouches := []\<rparr>)"
proof -
  have d: "fl (3 / 10) = Inr (5404319552844595 / 2 ^ 54)"
    using fl_eval[of "3 / 10" 54 5404319552844595] by simp
  have dx: "fl (200 - 200) = Inr 0" by (simp add: fl_zero)
  have vx: "fl (0 * (5404319552844595 / 2 ^ 54)) = Inr 0" by (simp add: fl_zero)
  have dy: "fl (210 - 10) = Inr 200"
    using fl_eval[of "210 - 10" 45 7036874417766400] by simp
  have vy: "fl (200 * (5404319552844595 / 2 ^ 54)) = Inr 60"
    using fl_eval[of "200 * (5404319552844595 / 2 ^ 54)" 47 8444249301319680] by simp
  have sx: "fl (0 * 0) = Inr 0" by (simp add: fl_zero)
  have sy: "fl (60 * 60) = Inr 3600"
    using fl_eval[of "60 * 60" 41 7916483719987200] by simp
  have s: "fl (0 + 3600) = Inr 3600"
    using fl_eval[of "0 + 3600" 41 7916483719987200] by simp
  have speed: "fl (sqrt 3600) = Inr 60"
    using fl_sqrt_eval[of 8444249301319680 47 3600] by simp
  have ratio: "fl (50 / 60) = Inr (7505999378950827 / 2 ^ 53)"
    using fl_eval[of "50 / 60" 53 7505999378950827] by simp
  have wx: "fl (0 * (7505999378950827 / 2 ^ 53)) = Inr 0" by (simp add: fl_zero)
  have wy: "fl (60 * (7505999378950827 / 2 ^ 53)) = Inr 50"
    using fl_eval[of "60 * (7505999378950827 / 2 ^ 53)" 47 7036874417766400] by simp
  let ?t = "\<lparr>puckIndex = 0, startX = 200, startY = 300, currentX = 200,
            currentY = 10, anchor = Some (200, 210), side = Top\<rparr>"
  have a: "map_of (activeTouches launchGame) Mouse = Some ?t" by (simp add: launchGame_def)
  have "handleEnd Mouse launchGame =
          Inr (launchGame\<lparr>pucks := (pucks launchGame)[puckIndex ?t :=
                        (pucks launchGame ! puckIndex ?t)\<lparr>puck_vx := 0, puck_vy := 50\<rparr>],
                   activeTouches := AList.delete Mouse (activeTouches launchGame)\<rparr>)"
    by (rule handleEnd_capped[OF a, where ax = 200 and ay = 210 and d = "5404319552844595 / 2 ^ 54"
          and dx = 0 and vx = 0 and dy = 200 and vy = 60 and sx = 0 and sy = 3600 and s = 3600
          and speed = 60 and ratio = "7505999378950827 / 2 ^ 53"])
       (use d dx vx dy vy sx sy s speed ratio wx wy in \<open>simp_all add: launchGame_def\<close>)
  then show ?thesis by (simp add: launchGame_def)
qed

lemma handleEnd_capGame:
  "handleEnd Mouse capGame =
     Inr (capGame\<lparr>pucks := [\<lparr>puck_id = 0, puck_x = 150, puck_y = 7,
                               puck_vx = - (6157134705392975 / 2 ^ 47),
                               puck_vy = 1703473935158723 / 2 ^ 46, puck_color = ''#00ff00''\<rparr>],
                    activeTouches := []\<rparr>)"
proof -
  have d: "fl (3 / 10) = Inr (5404319552844595 / 2 ^ 54)"
    using fl_eval[of "3 / 10" 54 5404319552844595] by simp
  have dx: "fl (0 - 150) = Inr (- 150)"
    using fl_eval[of "0 - 150" 45 "- 5277655813324800"] by simp
  have vx: "fl ((- 150) * (5404319552844595 / 2 ^ 54)) = Inr (- 45)"
    using fl_eval[of "(- 150) * (5404319552844595 / 2 ^ 54)" 47 "- 6333186975989760"] by simp
  have dy: "fl (90 - 7) = Inr 83"
    using fl_eval[of "90 - 7" 46 5840605766746112] by simp
  have vy: "fl (83 * (5404319552844595 / 2 ^ 54)) = Inr (3504363460047667 / 2 ^ 47)"
    using fl_eval[of "83 * (5404319552844595 / 2 ^ 54)" 48 7008726920095334] by simp
  have sx: "fl ((- 45) * (- 45)) = Inr 2025"
    using fl_eval[of "(- 45) * (- 45)" 42 8906044184985600] by simp
  have sy: "fl ((3504363460047667 / 2 ^ 47) * (3504363460047667 / 2 ^ 47)) = Inr (5453665634699181 / 2 ^ 43)"
    using fl_eval[of "(3504363460047667 / 2 ^ 47) * (3504363460047667 / 2 ^ 47)" 43 5453665634699181] by simp
  have s: "fl (2025 + (5453665634699181 / 2 ^ 43)) = Inr (5816438501167595 / 2 ^ 41)"
    using fl_eval[of "2025 + (5453665634699181 / 2 ^ 43)" 41 5816438501167595] by simp
  have speed: "fl (sqrt (5816438501167595 / 2 ^ 41)) = Inr (7238081274271765 / 2 ^ 47)"
    using fl_sqrt_eval[of 7238081274271765 47 "5816438501167595 / 2 ^ 41"] by simp
  have ratio: "fl (50 / (7238081274271765 / 2 ^ 47)) = Inr (2189203450806391 / 2 ^ 51)"
    using fl_eval[of "50 / (7238081274271765 / 2 ^ 47)" 53 8756813803225564] by simp
  have wx: "fl ((- 45) * (2189203450806391 / 2 ^ 51)) = Inr (- (6157134705392975 / 2 ^ 47))"
    using fl_eval[of "(- 45) * (2189203450806391 / 2 ^ 51)" 47 "- 6157134705392975"] by simp
  have wy: "fl ((3504363460047667 / 2 ^ 47) * (2189203450806391 / 2 ^ 51)) = Inr (1703473935158723 / 2 ^ 46)"
    using fl_eval[of "(3504363460047667 / 2 ^ 47) * (2189203450806391 / 2 ^ 51)" 48 6813895740634892] by simp
  let ?t = "\<lparr>puckIndex = 0, startX = 100, startY = 150, currentX = 150,
            currentY = 7, anchor = Some (0, 90), side = Top\<rparr>"
  have a: "map_of (activeTouches capGame) Mouse = Some ?t" by (simp add: capGame_def)
  have "handleEnd Mouse capGame =
          Inr (capGame\<lparr>pucks := (pucks capGame)[puckIndex ?t :=
                        (pucks capGame ! puckIndex ?t)\<lparr>puck_vx := - (6157134705392975 / 2 ^ 47),
                           puck_vy := 1703473935158723 / 2 ^ 46\<rparr>],
                   activeTouches := AList.delete Mouse (activeTouches capGame)\<rparr>)"
    by (rule handleEnd_capped[OF a, where ax = 0 and ay = 90 and d = "5404319552844595 / 2 ^ 54"
          and dx = "- 150" and vx = "- 45" and dy = 83
          and vy = "3504363460047667 / 2 ^ 47" and sx = 2025 and sy = "5453665634699181 / 2 ^ 43"
          and s = "5816438501167595 / 2 ^ 41" and speed = "7238081274271765 / 2 ^ 47"
          and ratio = "2189203450806391 / 2 ^ 51"])
       (use d dx vx dy vy sx sy s speed ratio wx wy in \<open>simp_all add: capGame_def\<close>)
  then show ?thesis by (simp add: capGame_def)
qed

text \<open>
  Claim C3. For a drag session whose anchor is \<open>(ax, ay)\<close> and whose puck is at
  \<open>(px, py)\<close> at release, with offsets of at most \<open>2 ^ 500\<close> in absolute value,
  \<open>handleEnd\<close> returns. With \<open>vx0\<close> and \<open>vy0\<close> the doubles computed for
  \<open>(ax - px) * DRAG_FORCE\<close> and \<open>(ay - py) * DRAG_FORCE\<close> (each within the offset
  times \<open>1 / 2 ^ 51\<close>, plus \<open>1 / 2 ^ 58\<close>, of the real product), the velocity of the puck
  is \<open>(vx0, vy0)\<close> when the double \<open>speed\<close> computed for its magnitude is at most
  \<open>MAX_SPEED\<close>. Otherwise both
  components are multiplied by the same positive double \<open>ratio\<close>, the rounded
  \<open>MAX_SPEED / speed\<close>, and rounded: the signs of the components are kept, and the
  magnitude of the stored velocity is within \<open>MAX_SPEED / 2 ^ 49\<close> of \<open>MAX_SPEED\<close>.
\<close>

theorem handleEnd_launch_velocity:
  assumes sess: "map_of (activeTouches g) k = Some t"
    and anch: "anchor t = Some (ax, ay)"
    and idx: "puckIndex t < length (pucks g)"
    and offx: "\<bar>ax - puck_x (pucks g ! puckIndex t)\<bar> \<le> 2 ^ 500"
    and offy: "\<bar>ay - puck_y (pucks g ! puckIndex t)\<bar> \<le> 2 ^ 500"
  shows "\<exists>g' d dx dy vx0 vy0 sx sy s speed.
     handleEnd k g = Inr g' \<and>
     (let p = pucks g ! puckIndex t;
          q = pucks g' ! puckIndex t
      in fl DRAG_FORCE = Inr d \<and>
         fl (ax - puck_x p) = Inr dx \<and> fl (dx * d) = Inr vx0 \<and>
         fl (ay - puck_y p) = Inr dy \<and> fl (dy * d) = Inr vy0 \<and>
         \<bar>vx0 - (ax - puck_x p) * DRAG_FORCE\<bar> \<le> \<bar>ax - puck_x p\<bar> / 2 ^ 51 + 1 / 2 ^ 58 \<and>
         \<bar>vy0 - (ay - puck_y p) * DRAG_FORCE\<bar> \<le> \<bar>ay - puck_y p\<bar> / 2 ^ 51 + 1 / 2 ^ 58 \<and>
         fl (vx0 * vx0) = Inr sx \<and> fl (vy0 * vy0) = Inr sy \<and>
         fl (sx + sy) = Inr s \<and> fl (sqrt s) = Inr speed \<and>
         (if speed > MAX_SPEED
          then (\<exists>ratio. fl (MAX_SPEED / speed) = Inr ratio \<and> 0 < ratio \<and>
                  fl (vx0 * ratio) = Inr (puck_vx q) \<and>
                  fl (vy0 * ratio) = Inr (puck_vy q) \<and>
                  0 \<le> vx0 * puck_vx q \<and> 0 \<le> vy0 * puck_vy q \<and>
                  \<bar>sqrt (puck_vx q * puck_vx q + puck_vy q * puck_vy q) - MAX_SPEED\<bar>
                    \<le> MAX_SPEED / 2 ^ 49)
          else puck_vx q = vx0 \<and> puck_vy q = vy0))"
proof -
  define p where "p = pucks g ! puckIndex t"
  from launch_total[OF offx offy]
  obtain d dx vx dy vy sx sy s speed where
    c: "fl (3 / 10) = Inr d" "fl (ax - puck_x p) = Inr dx" "fl (dx * d) = Inr vx"
       "fl (ay - puck_y p) = Inr dy" "fl (dy * d) = Inr vy"
       "fl (vx * vx) = Inr sx" "fl (vy * vy) = Inr sy" "fl (sx + sy) = Inr s"
       "fl (sqrt s) = Inr speed"
    and cap: "50 < speed \<longrightarrow>
              (\<exists>ratio wx wy. fl (50 / speed) = Inr ratio \<and> fl (vx * ratio) = Inr wx \<and>
                 fl (vy * ratio) = Inr wy)"
    unfolding p_def by blast
  have ex: "\<bar>vx - (ax - puck_x p) * DRAG_FORCE\<bar> \<le> \<bar>ax - puck_x p\<bar> / 2 ^ 51 + 1 / 2 ^ 58"
    using raw_velocity_error[OF c(2) c(1) c(3)] by (simp add: DRAG_FORCE_def)
  have ey: "\<bar>vy - (ay - puck_y p) * DRAG_FORCE\<bar> \<le> \<bar>ay - puck_y p\<bar> / 2 ^ 51 + 1 / 2 ^ 58"
    using raw_velocity_error[OF c(4) c(1) c(5)] by (simp add: DRAG_FORCE_def)
  have dd: "fl DRAG_FORCE = Inr d" using c(1) by (simp add: DRAG_FORCE_def)
  show ?thesis
  proof (cases "50 < speed")
    case True
    with cap obtain ratio wx wy where
      r: "fl (50 / speed) = Inr ratio" "fl (vx * ratio) = Inr wx" "fl (vy * ratio) = Inr wy"
      by blast
    let ?g' = "g\<lparr>pucks := (pucks g)[puckIndex t := p\<lparr>puck_vx := wx, puck_vy := wy\<rparr>],
                    activeTouches := AList.delete k (activeTouches g)\<rparr>"
    have he: "handleEnd k g = Inr ?g'"
      unfolding p_def
      by (rule handleEnd_capped[OF sess anch idx c(1) c(2)[unfolded p_def] c(3)
            c(4)[unfolded p_def] c(5) c(6) c(7) c(8) c(9) True r])
    have q: "pucks ?g' ! puckIndex t = p\<lparr>puck_vx := wx, puck_vy := wy\<rparr>"
      using idx by simp
    from cap_magnitude[OF c(6) c(7) c(8) c(9) True r]
    have rpos: "0 < ratio" and mag: "\<bar>sqrt (wx * wx + wy * wy) - 50\<bar> \<le> 50 / 2 ^ 49"
      by blast+
    have sgx: "0 \<le> vx * wx"
    proof (cases "0 \<le> vx")
      case True
      then have "0 \<le> vx * ratio" using rpos by simp
      from fl_nonneg[OF r(2) this] True show ?thesis by simp
    next
      case False
      then have "vx * ratio \<le> 0" using rpos by (simp add: mult_le_0_iff)
      from fl_nonpos[OF r(2) this] False show ?thesis by (simp add: zero_le_mult_iff)
    qed
    have sgy: "0 \<le> vy * wy"
    proof (cases "0 \<le> vy")
      case True
      then have "0 \<le> vy * ratio" using rpos by simp
      from fl_nonneg[OF r(3) this] True show ?thesis by simp
    next
      case False
      then have "vy * ratio \<le> 0" using rpos by (simp add: mult_le_0_iff)
      from fl_nonpos[OF r(3) this] False show ?thesis by (simp add: zero_le_mult_iff)
    qed
    have "let p = pucks g ! puckIndex t; q = pucks ?g' ! puckIndex t
      in fl DRAG_FORCE = Inr d \<and>
         fl (ax - puck_x p) = Inr dx \<and> fl (dx * d) = Inr vx \<and>
         fl (ay - puck_y p) = Inr dy \<and> fl (dy * d) = Inr vy \<and>
         \<bar>vx - (ax - puck_x p) * DRAG_FORCE\<bar> \<le> \<bar>ax - puck_x p\<bar> / 2 ^ 51 + 1 / 2 ^ 58 \<and>
         \<bar>vy - (ay - puck_y p) * DRAG_FORCE\<bar> \<le> \<bar>ay - puck_y p\<bar> / 2 ^ 51 + 1 / 2 ^ 58 \<and>
         fl (vx * vx) = Inr sx \<and> fl (vy * vy) = Inr sy \<and>
         fl (sx + sy) = Inr s \<and> fl (sqrt s) = Inr speed \<and>
         (if speed > MAX_SPEED
          then (\<exists>ratio. fl (MAX_SPEED / speed) = Inr ratio \<and> 0 < ratio \<and>
                  fl (vx * ratio) = Inr (puck_vx q) \<and>
                  fl (vy * ratio) = Inr (puck_vy q) \<and>
                  0 \<le> vx * puck_vx q \<and> 0 \<le> vy * puck_vy q \<and>
                  \<bar>sqrt (puck_vx q * puck_vx q + puck_vy q * puck_vy q) - MAX_SPEED\<bar>
                    \<le> MAX_SPEED / 2 ^ 49)
          else puck_vx q = vx \<and> puck_vy q = vy)"
      unfolding Let_def q p_def[symmetric]
      using dd c ex ey True r rpos sgx sgy mag by (simp add: MAX_SPEED_def)
    with he show ?thesis by blast
  next
    case False
    let ?g' = "g\<lparr>pucks := (pucks g)[puckIndex t := p\<lparr>puck_vx := vx, puck_vy := vy\<rparr>],
                    activeTouches := AList.delete k (activeTouches g)\<rparr>"
    have he: "handleEnd k g = Inr ?g'"
      unfolding p_def
      by (rule handleEnd_uncapped[OF sess anch idx c(1) c(2)[unfolded p_def] c(3)
            c(4)[unfolded p_def] c(5) c(6) c(7) c(8) c(9) False])
    have q: "pucks ?g' ! puckIndex t = p\<lparr>puck_vx := vx, puck_vy := vy\<rparr>"
      using idx by simp
    have "let p = pucks g ! puckIndex t; q = pucks ?g' ! puckIndex t
      in fl DRAG_FORCE = Inr d \<and>
         fl (ax - puck_x p) = Inr dx \<and> fl (dx * d) = Inr vx \<and>
         fl (ay - puck_y p) = Inr dy \<and> fl (dy * d) = Inr vy \<and>
         \<bar>vx - (ax - puck_x p) * DRAG_FORCE\<bar> \<le> \<bar>ax - puck_x p\<bar> / 2 ^ 51 + 1 / 2 ^ 58 \<and>
         \<bar>vy - (ay - puck_y p) * DRAG_FORCE\<bar> \<le> \<bar>ay - puck_y p\<bar> / 2 ^ 51 + 1 / 2 ^ 58 \<and>
         fl (vx * vx) = Inr sx \<and> fl (vy * vy) = Inr sy \<and>
         fl (sx + sy) = Inr s \<and> fl (sqrt s) = Inr speed \<and>
         (if speed > MAX_SPEED
          then (\<exists>ratio. fl (MAX_SPEED / speed) = Inr ratio \<and> 0 < ratio \<and>
                  fl (vx * ratio) = Inr (puck_vx q) \<and>
                  fl (vy * ratio) = Inr (puck_vy q) \<and>
                  0 \<le> vx * puck_vx q \<and> 0 \<le> vy * puck_vy q \<and>
                  \<bar>sqrt (puck_vx q * puck_vx q + puck_vy q * puck_vy q) - MAX_SPEED\<bar>
                    \<le> MAX_SPEED / 2 ^ 49)
          else puck_vx q = vx \<and> puck_vy q = vy)"
      unfolding Let_def q p_def[symmetric]
      using dd c ex ey False by (simp add: MAX_SPEED_def)
    with he show ?thesis by blast
  qed
qed

theorem handleEnd_launch_velocity_witness:
  "map_of (activeTouches launchGame) Mouse =
     Some \<lparr>puckIndex = 0, startX = 200, startY = 300, currentX = 200,
           currentY = 10, anchor = Some (200, 210), side = Top\<rparr> \<and>
   (0::nat) < length (pucks launchGame) \<and>
   \<bar>200 - puck_x (pucks launchGame ! 0)\<bar> \<le> 2 ^ 500 \<and>
   \<bar>210 - puck_y (pucks launchGame ! 0)\<bar> \<le> 2 ^ 500 \<and>
   (\<exists>g'. handleEnd Mouse launchGame = Inr g' \<and>
         puck_vx (pucks g' ! 0) = 0 \<and> puck_vy (pucks g' ! 0) = 50 \<and>
         \<bar>sqrt (puck_vx (pucks g' ! 0) * puck_vx (pucks g' ! 0)
              + puck_vy (pucks g' ! 0) * puck_vy (pucks g' ! 0)) - MAX_SPEED\<bar>
           \<le> MAX_SPEED / 2 ^ 49)"
proof -
  let ?t = "\<lparr>puckIndex = 0, startX = 200, startY = 300, currentX = 200,
            currentY = 10, anchor = Some (200, 210), side = Top\<rparr>"
  have a: "map_of (activeTouches launchGame) Mouse = Some ?t"
    by (simp add: launchGame_def)
  have b: "anchor ?t = Some (200, 210)" by simp
  have c: "puckIndex ?t < length (pucks launchGame)" by (simp add: launchGame_def)
  have x: "\<bar>200 - puck_x (pucks launchGame ! puckIndex ?t)\<bar> \<le> 2 ^ 500"
    by (simp add: launchGame_def)
  have y: "\<bar>210 - puck_y (pucks launchGame ! puckIndex ?t)\<bar> \<le> 2 ^ 500"
    by (simp add: launchGame_def)
  from handleEnd_launch_velocity[OF a b c x y]
  obtain g' where g': "handleEnd Mouse launchGame = Inr g'" by blast
  with handleEnd_launchGame
  have v: "puck_vx (pucks g' ! 0) = 0" "puck_vy (pucks g' ! 0) = 50" by auto
  have "sqrt (puck_vx (pucks g' ! 0) * puck_vx (pucks g' ! 0)
              + puck_vy (pucks g' ! 0) * puck_vy (pucks g' ! 0)) = 50"
    unfolding v using real_sqrt_abs2[of 50] by simp
  with a c x y g' v show ?thesis by (simp add: MAX_SPEED_def)
qed

text \<open>
  Claim C3 as stated fails: the rescaled magnitude is not exactly \<open>MAX_SPEED\<close>. Released
  with the anchor at \<open>(0, 90)\<close> and the puck at \<open>(150, 7)\<close>, the puck gets the velocity
  \<open>(-43.74907338013383, 24.20782060367405)\<close>, whose magnitude is greater than
  \<open>MAX_SPEED\<close>.
\<close>

theorem handleEnd_cap_exceeds_MAX_SPEED:
  "map_of (activeTouches capGame) Mouse =
     Some \<lparr>puckIndex = 0, startX = 100, startY = 150, currentX = 150,
           currentY = 7, anchor = Some (0, 90), side = Top\<rparr> \<and>
   puck_x (pucks capGame ! 0) = 150 \<and> puck_y (pucks capGame ! 0) = 7 \<and>
   handleEnd Mouse capGame =
     Inr (capGame\<lparr>pucks := [\<lparr>puck_id = 0, puck_x = 150, puck_y = 7,
                               puck_vx = - (6157134705392975 / 2 ^ 47),
                               puck_vy = 1703473935158723 / 2 ^ 46, puck_color = ''#00ff00''\<rparr>],
                    activeTouches := []\<rparr>) \<and>
   MAX_SPEED < sqrt (- (6157134705392975 / 2 ^ 47) * - (6157134705392975 / 2 ^ 47)
                   + 1703473935158723 / 2 ^ 46 * (1703473935158723 / 2 ^ 46))"
proof -
  have "MAX_SPEED < sqrt (- (6157134705392975 / 2 ^ 47) * - (6157134705392975 / 2 ^ 47)
                   + 1703473935158723 / 2 ^ 46 * (1703473935158723 / 2 ^ 46))"
    unfolding MAX_SPEED_def by (rule real_less_rsqrt) (simp add: power2_eq_square)
  then show ?thesis using handleEnd_capGame by (simp add: capGame_def)
qed

subsection \<open>Press: the hit test and the side gate\<close>

lemma sqrt_less_iff_sq: "0 < b \<Longrightarrow> (sqrt a < b) = (a < b * b)"
proof -
  assume b: "0 < b"
  have "(sqrt a < b) = (sqrt a < sqrt (b * b))" using b by simp
  also have "\<dots> = (a < b * b)" by (rule real_sqrt_less_iff)
  finally show ?thesis .
qed

lemma findIndexFrom_Some:
  "findIndexFrom P xs i = Some n \<Longrightarrow>
     i \<le> n \<and> n < i + length xs \<and> P (xs ! (n - i)) n \<and>
     (\<forall>j. i \<le> j \<and> j < n \<longrightarrow> \<not> P (xs ! (j - i)) j)"
proof (induction xs arbitrary: i)
  case Nil
  then show ?case by simp
next
  case (Cons a as)
  show ?case
  proof (cases "P a i")
    case True
    with Cons.prems show ?thesis by auto
  next
    case False
    with Cons.prems have r: "findIndexFrom P as (Suc i) = Some n" by simp
    from Cons.IH[OF r] have ih: "Suc i \<le> n" "n < Suc i + length as" "P (as ! (n - Suc i)) n"
      "\<forall>j. Suc i \<le> j \<and> j < n \<longrightarrow> \<not> P (as ! (j - Suc i)) j" by auto
    have nth: "\<And>m. Suc i \<le> m \<Longrightarrow> (a # as) ! (m - i) = as ! (m - Suc i)"
      by (simp add: Suc_diff_le)
    have "\<forall>j. i \<le> j \<and> j < n \<longrightarrow> \<not> P ((a # as) ! (j - i)) j"
    proof (intro allI impI)
      fix j assume j: "i \<le> j \<and> j < n"
      show "\<not> P ((a # as) ! (j - i)) j"
      proof (cases "j = i")
        case True
        then show ?thesis using False by simp
      next
        case False
        then have "Suc i \<le> j" using j by simp
        then show ?thesis using ih(4) j nth by simp
      qed
    qed
    then show ?thesis using ih nth[of n] by simp
  qed
qed

lemma findIndexFrom_None:
  "findIndexFrom P xs i = None \<Longrightarrow> \<forall>j < length xs. \<not> P (xs ! j) (i + j)"
proof (induction xs arbitrary: i)
  case Nil
  then show ?case by simp
next
  case (Cons a as)
  then have a: "\<not> P a i" and r: "findIndexFrom P as (Suc i) = None"
    by (auto split: if_splits)
  from Cons.IH[OF r] have ih: "\<forall>j < length as. \<not> P (as ! j) (Suc i + j)" .
  show ?case
  proof (intro allI impI)
    fix j assume "j < length (a # as)"
    then show "\<not> P ((a # as) ! j) (i + j)"
      using a ih by (cases j) auto
  qed
qed

lemma findIndex_first:
  assumes "i < length xs" "P (xs ! i) i" "\<forall>j < i. \<not> P (xs ! j) j"
  shows "findIndex P xs = Some i"
proof (cases "findIndex P xs")
  case None
  then have "\<forall>j < length xs. \<not> P (xs ! j) (0 + j)"
    unfolding findIndex_def by (rule findIndexFrom_None)
  with assms show ?thesis by simp
next
  case (Some n)
  from findIndexFrom_Some[OF Some[unfolded findIndex_def]]
  have n: "n < length xs" "P (xs ! n) n" "\<forall>j < n. \<not> P (xs ! j) j" by auto
  have "n = i"
  proof (rule ccontr)
    assume "n \<noteq> i"
    then consider "n < i" | "i < n" by linarith
    then show False using n assms by cases auto
  qed
  with Some show ?thesis by simp
qed

lemma findIndex_none:
  assumes "\<forall>j < length xs. \<not> P (xs ! j) j"
  shows "findIndex P xs = None"
proof (cases "findIndex P xs")
  case None
  then show ?thesis .
next
  case (Some n)
  from findIndexFrom_Some[OF Some[unfolded findIndex_def]]
  have "n < length xs" "P (xs ! n) n" by auto
  with assms show ?thesis by simp
qed

lemma update_fresh: "map_of ts k = None \<Longrightarrow> AList.update k v ts = ts @ [(k, v)]"
  by (induction ts) (auto split: if_splits)

text \<open>
  Claim C7, as the code has it. For a press while the match is playing, by a pointer with no
  active session: the candidate is the first puck, in array order, that is within
  \<open>3 * PUCK_RADIUS\<close> of the press point and not claimed by an active session, whatever its
  side. If its side agrees with the side of the press point, its velocity is zeroed and a
  session for the pointer is appended; if not, or if there is no candidate, the press changes
  nothing. Later pucks are not tried.
\<close>

theorem handleStart_claims_first_hit:
  assumes playing: "gameState g = Playing"
    and fresh: "\<not> has (activeTouches g) k"
  shows "((\<forall>j < length (pucks g). \<not> hit g px py (pucks g ! j) j) \<longrightarrow>
            handleStart px py k rnd g = g) \<and>
         (i < length (pucks g) \<and> hit g px py (pucks g ! i) i \<and>
            (\<forall>j < i. \<not> hit g px py (pucks g ! j) j) \<longrightarrow>
            handleStart px py k rnd g =
              (if (py < height g / 2) = (puck_y (pucks g ! i) < height g / 2)
               then g\<lparr>activeTouches := activeTouches g @
                         [(k, \<lparr>puckIndex = i, startX = px, startY = py, currentX = px,
                               currentY = py, anchor = None,
                               side = (if py < height g / 2 then Top else Bottom)\<rparr>)],
                       pucks := (pucks g)[i := (pucks g ! i)\<lparr>puck_vx := 0, puck_vy := 0\<rparr>]\<rparr>
               else g))"
proof (intro conjI impI)
  assume "\<forall>j < length (pucks g). \<not> hit g px py (pucks g ! j) j"
  then have "findIndex (hit g px py) (pucks g) = None" by (rule findIndex_none)
  then show "handleStart px py k rnd g = g"
    using playing fresh by (simp add: handleStart_def)
next
  assume a: "i < length (pucks g) \<and> hit g px py (pucks g ! i) i \<and>
            (\<forall>j < i. \<not> hit g px py (pucks g ! j) j)"
  then have f: "findIndex (hit g px py) (pucks g) = Some i"
    by (intro findIndex_first) auto
  have u: "\<And>v. AList.update k v (activeTouches g) = activeTouches g @ [(k, v)]"
    using fresh by (intro update_fresh) (simp add: has_def)
  show "handleStart px py k rnd g =
              (if (py < height g / 2) = (puck_y (pucks g ! i) < height g / 2)
               then g\<lparr>activeTouches := activeTouches g @
                         [(k, \<lparr>puckIndex = i, startX = px, startY = py, currentX = px,
                               currentY = py, anchor = None,
                               side = (if py < height g / 2 then Top else Bottom)\<rparr>)],
                       pucks := (pucks g)[i := (pucks g ! i)\<lparr>puck_vx := 0, puck_vy := 0\<rparr>]\<rparr>
               else g)"
    using playing fresh by (simp add: handleStart_def f u Let_def)
qed

theorem handleStart_claims_first_hit_witness:
  "gameState pressGame = Playing \<and> \<not> has (activeTouches pressGame) Mouse \<and>
   hit pressGame 200 300 (pucks pressGame ! 0) 0 \<and>
   handleStart 200 300 Mouse zeroRandom pressGame =
     pressGame\<lparr>activeTouches :=
                  [(Mouse, \<lparr>puckIndex = 0, startX = 200, startY = 300, currentX = 200,
                            currentY = 300, anchor = None, side = Bottom\<rparr>)],
                pucks := [\<lparr>puck_id = 0, puck_x = 200, puck_y = 305, puck_vx = 0, puck_vy = 0,
                           puck_color = ''#00ff00''\<rparr>,
                          \<lparr>puck_id = 1, puck_x = 200, puck_y = 270, puck_vx = 1, puck_vy = 0,
                           puck_color = ''#00ff00''\<rparr>]\<rparr>"
proof -
  have p: "gameState pressGame = Playing" by (simp add: pressGame_def)
  have f: "\<not> has (activeTouches pressGame) Mouse" by (simp add: pressGame_def has_def)
  have h: "hit pressGame 200 300 (pucks pressGame ! 0) 0"
    by (simp add: pressGame_def hit_def isDragged_def PUCK_RADIUS_def sqrt_less_iff_sq)
  from handleStart_claims_first_hit[OF p f, of 200 300 zeroRandom 0] h
  have "handleStart 200 300 Mouse zeroRandom pressGame =
     pressGame\<lparr>activeTouches :=
                  [(Mouse, \<lparr>puckIndex = 0, startX = 200, startY = 300, currentX = 200,
                            currentY = 300, anchor = None, side = Bottom\<rparr>)],
                pucks := [\<lparr>puck_id = 0, puck_x = 200, puck_y = 305, puck_vx = 0, puck_vy = 0,
                           puck_color = ''#00ff00''\<rparr>,
                          \<lparr>puck_id = 1, puck_x = 200, puck_y = 270, puck_vx = 1, puck_vy = 0,
                           puck_color = ''#00ff00''\<rparr>]\<rparr>"
    by (simp add: pressGame_def)
  with p f h show ?thesis by simp
qed

text \<open>
  Claim C7 as stated fails: a press at \<open>(200, 290)\<close>, in the top half, is within the pick
  radius of puck 0 (bottom half) and of puck 1 (top half, unclaimed, same side as the
  press). Puck 1 is the first puck that meets all of the claim's conditions, but the hit
  test stops at puck 0, the side gate rejects it, and no session is created.
\<close>

theorem handleStart_skips_later_puck:
  "gameState pressGame = Playing \<and> \<not> has (activeTouches pressGame) Mouse \<and>
   hit pressGame 200 290 (pucks pressGame ! 0) 0 \<and>
   ((290::real) < height pressGame / 2) \<noteq> (puck_y (pucks pressGame ! 0) < height pressGame / 2) \<and>
   hit pressGame 200 290 (pucks pressGame ! 1) 1 \<and>
   ((290::real) < height pressGame / 2) = (puck_y (pucks pressGame ! 1) < height pressGame / 2) \<and>
   handleStart 200 290 Mouse zeroRandom pressGame = pressGame"
  by (simp add: pressGame_def has_def hit_def isDragged_def PUCK_RADIUS_def sqrt_less_iff_sq
      handleStart_def findIndex_def Let_def)

subsection \<open>The frame: update and the win condition\<close>

lemma winCondition_frame [simp]:
  "pucks (winCondition g tc bc now) = pucks g"
  "activeTouches (winCondition g tc bc now) = activeTouches g"
  "width (winCondition g tc bc now) = width g"
  "height (winCondition g tc bc now) = height g"
  "currentLevel (winCondition g tc bc now) = currentLevel g"
  "GAP_OFFSET (winCondition g tc bc now) = GAP_OFFSET g"
  by (auto simp: winCondition_def split: option.splits)

lemma update_not_playing: "gameState g \<noteq> Playing \<Longrightarrow> update g now = Inr g"
  by (simp add: update_def)

lemma update_playing_result:
  assumes "gameState g = Playing" "update g now = Inr g'"
  shows "g' = winCondition (g\<lparr>pucks := pucks g'\<rparr>)
                (topCount (height g) (pucks g')) (bottomCount (height g) (pucks g')) now"
proof -
  from assms obtain ps where ps: "physicsSteps steps g now (pucks g) = Inr ps"
    by (auto simp: update_def split: sum.splits)
  define ps' where "ps' = applyFriction (activeTouches g) ps"
  have g': "g' = winCondition (g\<lparr>pucks := ps'\<rparr>) (topCount (height g) ps')
                   (bottomCount (height g) ps') now"
    using assms ps by (simp add: update_def Let_def ps'_def)
  then have "pucks g' = ps'" by simp
  with g' show ?thesis by simp
qed

text \<open>Evaluation of a frame on the example states: the pucks are a fixed point.\<close>

lemma physicsSteps_fixpoint:
  "physicsPass g now ps = Inr ps \<Longrightarrow> physicsSteps n g now ps = Inr ps"
  by (induction n) simp_all

lemmas pass_eval =
  physicsPass_def puckPhysics_def isDragged_def movePuck_def steps_def
  wallCollisions_def getWallSegments_def getObstacles_def segmentCollision_def wallRect_def
  checkCapCollision_def ballCollision_def obstacleCollision_def
  PUCK_RADIUS_def HOLE_WIDTH_def WALL_THICKNESS_def BOUNCE_DAMPING_def
  Let_def upt_rec sqrt_less_iff_sq

lemma pass_landscape:
  "physicsPass (exampleGame 800 400 wt) now tenPucks = Inr tenPucks"
  by (simp add: exampleGame_def tenPucks_def restPuck_def pass_eval)

lemma pass_portrait:
  "physicsPass (exampleGame 400 800 wt) now tenPucks = Inr tenPucks"
  by (simp add: exampleGame_def tenPucks_def restPuck_def pass_eval)

lemma friction_tenPucks: "applyFriction [] tenPucks = tenPucks"
  by (simp add: applyFriction_def tenPucks_def restPuck_def isDragged_def enumerate_eq_zip upt_rec)

lemma counts_landscape: "topCount 400 tenPucks = 0" "bottomCount 400 tenPucks = 10"
  by (simp_all add: topCount_def bottomCount_def tenPucks_def restPuck_def)

lemma counts_portrait: "topCount 800 tenPucks = 10" "bottomCount 800 tenPucks = 0"
  by (simp_all add: topCount_def bottomCount_def tenPucks_def restPuck_def)

lemma exampleGame_sel [simp]:
  "gameState (exampleGame W H wt) = Playing"
  "pucks (exampleGame W H wt) = tenPucks"
  "activeTouches (exampleGame W H wt) = []"
  "height (exampleGame W H wt) = H"
  "winTimestamp (exampleGame W H wt) = wt"
  "topWins (exampleGame W H wt) = 0"
  "bottomWins (exampleGame W H wt) = 0"
  "(exampleGame W H wt)\<lparr>pucks := tenPucks\<rparr> = exampleGame W H wt"
  by (simp_all add: exampleGame_def)

lemma update_landscape:
  "update (exampleGame 800 400 wt) now = Inr (winCondition (exampleGame 800 400 wt) 0 10 now)"
  by (simp add: update_def physicsSteps_fixpoint[OF pass_landscape] friction_tenPucks
      counts_landscape)

lemma update_portrait:
  "update (exampleGame 400 800 wt) now = Inr (winCondition (exampleGame 400 800 wt) 10 0 now)"
  by (simp add: update_def physicsSteps_fixpoint[OF pass_portrait] friction_tenPucks
      counts_portrait)

text \<open>
  Claim C1, as the code has it. In a frame of a playing match whose debounce timer is armed
  and has elapsed (\<open>winTimestamp\<close> is a non-zero \<open>t\<close> with \<open>t < Date.now()\<close>) and whose
  physics returns numbers: if the top side's count is zero the state becomes \<open>won\<close>, the
  winner is \<open>top\<close> and the top win counter is incremented; otherwise, if the bottom side's
  count is zero, the winner is \<open>bottom\<close> and the bottom win counter is incremented. The
  counter incremented is the one of the emptied side itself, and the other is unchanged.
\<close>

theorem update_win_emptied_side:
  assumes playing: "gameState g = Playing"
    and upd: "update g now = Inr g'"
    and timer: "winTimestamp g = Some t" "t \<noteq> 0" "t < now"
  shows "(topCount (height g) (pucks g') = 0 \<longrightarrow>
            gameState g' = Won \<and> winner g' = Some Top \<and>
            topWins g' = topWins g + 1 \<and> bottomWins g' = bottomWins g) \<and>
         (topCount (height g) (pucks g') \<noteq> 0 \<and> bottomCount (height g) (pucks g') = 0 \<longrightarrow>
            gameState g' = Won \<and> winner g' = Some Bottom \<and>
            bottomWins g' = bottomWins g + 1 \<and> topWins g' = topWins g)"
proof -
  define tc where "tc = topCount (height g) (pucks g')"
  define bc where "bc = bottomCount (height g) (pucks g')"
  define w where "w = winCondition (g\<lparr>pucks := pucks g'\<rparr>) tc bc now"
  have r: "g' = w"
    unfolding w_def tc_def bc_def by (rule update_playing_result[OF playing upd])
  have top: "tc = 0 \<Longrightarrow> gameState w = Won \<and> winner w = Some Top \<and>
            topWins w = topWins g + 1 \<and> bottomWins w = bottomWins g"
    by (simp add: w_def winCondition_def falsy_def timer)
  have bot: "tc \<noteq> 0 \<Longrightarrow> bc = 0 \<Longrightarrow> gameState w = Won \<and> winner w = Some Bottom \<and>
            bottomWins w = bottomWins g + 1 \<and> topWins w = topWins g"
    by (simp add: w_def winCondition_def falsy_def timer)
  from top bot show ?thesis
    unfolding r[symmetric] tc_def bc_def by blast
qed

theorem update_win_emptied_side_witness:
  "gameState (exampleGame 400 800 (Some 1800)) = Playing \<and>
   update (exampleGame 400 800 (Some 1800)) 1801 =
     Inr ((exampleGame 400 800 (Some 1800))
            \<lparr>gameState := Won, winner := Some Bottom, bottomWins := 1\<rparr>) \<and>
   winTimestamp (exampleGame 400 800 (Some 1800)) = Some 1800 \<and> (1800::int) < 1801 \<and>
   topCount 800 tenPucks \<noteq> 0 \<and> bottomCount 800 tenPucks = 0 \<and>
   gameState ((exampleGame 400 800 (Some 1800))
                \<lparr>gameState := Won, winner := Some Bottom, bottomWins := 1\<rparr>) = Won \<and>
   bottomWins ((exampleGame 400 800 (Some 1800))
                \<lparr>gameState := Won, winner := Some Bottom, bottomWins := 1\<rparr>)
     = bottomWins (exampleGame 400 800 (Some 1800)) + 1"
proof -
  let ?g = "exampleGame 400 800 (Some 1800)"
  let ?g' = "?g\<lparr>gameState := Won, winner := Some Bottom, bottomWins := 1\<rparr>"
  have p: "gameState ?g = Playing" by simp
  have u: "update ?g 1801 = Inr ?g'"
    by (simp add: update_portrait winCondition_def falsy_def)
  have t: "winTimestamp ?g = Some 1800" "(1800::int) \<noteq> 0" "(1800::int) < 1801" by simp_all
  from update_win_emptied_side[OF p u t] p u t show ?thesis
    by (simp add: counts_portrait)
qed

text \<open>
  Claim C1 as stated fails: with all ten pucks in the bottom half (the top side is the
  emptied side) and the timer elapsed, the frame makes \<open>top\<close> the winner and increments
  \<open>topWins\<close>; the win counter of the opposing side, \<open>bottomWins\<close>, stays 0.
\<close>

theorem update_increments_emptied_side:
  "topCount 400 tenPucks = 0 \<and>
   update (exampleGame 800 400 (Some 1800)) 1801 =
     Inr \<lparr>gameState = Won, winner = Some Top, pucks = tenPucks, activeTouches = [],
          winTimestamp = Some 1800, width = 800, height = 400, topWins = 1, bottomWins = 0,
          currentLevel = 0, GAP_OFFSET = 200\<rparr>"
proof -
  have "winCondition (exampleGame 800 400 (Some 1800)) 0 10 1801 =
     \<lparr>gameState = Won, winner = Some Top, pucks = tenPucks, activeTouches = [],
      winTimestamp = Some 1800, width = 800, height = 400, topWins = 1, bottomWins = 0,
      currentLevel = 0, GAP_OFFSET = 200\<rparr>"
    by (simp add: winCondition_def falsy_def exampleGame_def)
  then show ?thesis
    by (simp only: update_landscape counts_landscape simp_thms)
qed

subsection \<open>Sessions under events\<close>

lemma foldE_append:
  "foldE f (xs @ ys) s = (case foldE f xs s of Inl e \<Rightarrow> Inl e | Inr s' \<Rightarrow> foldE f ys s')"
  by (induction xs arbitrary: s) (auto split: sum.splits)

lemma foldE_invariant:
  assumes "foldE f xs s = Inr s'" "P s"
    and step: "\<And>a u u'. a \<in> set xs \<Longrightarrow> P u \<Longrightarrow> f a u = Inr u' \<Longrightarrow> P u'"
  shows "P s'"
  using assms
proof (induction xs arbitrary: s)
  case Nil
  then show ?case by simp
next
  case (Cons a as)
  from Cons.prems(1) obtain u where u: "f a s = Inr u" and r: "foldE f as u = Inr s'"
    by (auto split: sum.splits)
  have "P u" using Cons.prems(2,3) u by auto
  then show ?case using Cons.IH[OF r] Cons.prems(3) by auto
qed

lemma keepsDragged_refl: "keepsDragged ts ps ps"
  by (simp add: keepsDragged_def)

lemma keepsDragged_trans:
  "keepsDragged ts ps ps' \<Longrightarrow> keepsDragged ts ps' ps'' \<Longrightarrow> keepsDragged ts ps ps''"
  by (simp add: keepsDragged_def)

lemma keepsDragged_update:
  "\<not> isDragged ts i \<Longrightarrow> keepsDragged ts ps (ps[i := p])"
  by (auto simp: keepsDragged_def) (metis nth_list_update_neq)

lemma ballLoop_keepsDragged:
  "ballLoop ts index js ps = Inr ps' \<Longrightarrow> \<not> isDragged ts index \<Longrightarrow> keepsDragged ts ps ps'"
proof (induction js arbitrary: ps)
  case Nil
  then show ?case by (simp add: keepsDragged_refl)
next
  case (Cons j js)
  show ?case
  proof (cases "isDragged ts j")
    case True
    with Cons show ?thesis by simp
  next
    case False
    with Cons.prems(1) obtain p' other' where
      c: "ballCollision (ps ! index) (ps ! j) = Inr (p', other')" and
      r: "ballLoop ts index js (ps[index := p', j := other']) = Inr ps'"
      by (auto split: sum.splits prod.splits)
    have "keepsDragged ts ps (ps[index := p'])"
      using Cons.prems(2) by (rule keepsDragged_update)
    moreover have "keepsDragged ts (ps[index := p']) (ps[index := p', j := other'])"
      using False by (rule keepsDragged_update)
    moreover have "keepsDragged ts (ps[index := p', j := other']) ps'"
      using Cons.IH[OF r Cons.prems(2)] .
    ultimately show ?thesis by (blast intro: keepsDragged_trans)
  qed
qed

lemma puckPhysics_keepsDragged:
  assumes "puckPhysics g now index ps = Inr ps'"
  shows "keepsDragged (activeTouches g) ps ps'"
proof (cases "isDragged (activeTouches g) index")
  case True
  with assms show ?thesis by (simp add: puckPhysics_def keepsDragged_refl)
next
  case False
  with assms obtain p3 where
    r: "ballLoop (activeTouches g) index [index + 1 ..< length ps] (ps[index := p3]) = Inr ps'"
    by (auto simp: puckPhysics_def Let_def split: sum.splits)
  have "keepsDragged (activeTouches g) ps (ps[index := p3])"
    using False by (rule keepsDragged_update)
  moreover have "keepsDragged (activeTouches g) (ps[index := p3]) ps'"
    using ballLoop_keepsDragged[OF r False] .
  ultimately show ?thesis by (rule keepsDragged_trans)
qed

lemma physicsPass_keepsDragged:
  assumes "physicsPass g now ps = Inr ps'"
  shows "keepsDragged (activeTouches g) ps ps'"
proof -
  have "foldE (puckPhysics g now) [0 ..< length ps] ps = Inr ps'"
    using assms by (simp add: physicsPass_def)
  then show ?thesis
  proof (rule foldE_invariant[where P = "keepsDragged (activeTouches g) ps"])
    show "keepsDragged (activeTouches g) ps ps" by (rule keepsDragged_refl)
  next
    fix a u u'
    assume "keepsDragged (activeTouches g) ps u" "puckPhysics g now a u = Inr u'"
    then show "keepsDragged (activeTouches g) ps u'"
      by (blast intro: keepsDragged_trans puckPhysics_keepsDragged)
  qed
qed

lemma physicsSteps_keepsDragged:
  "physicsSteps n g now ps = Inr ps' \<Longrightarrow> keepsDragged (activeTouches g) ps ps'"
proof (induction n arbitrary: ps)
  case 0
  then show ?case by (simp add: keepsDragged_refl)
next
  case (Suc n)
  from Suc.prems obtain u where u: "physicsPass g now ps = Inr u"
    and r: "physicsSteps n g now u = Inr ps'"
    by (auto split: sum.splits)
  from physicsPass_keepsDragged[OF u] Suc.IH[OF r] show ?case
    by (rule keepsDragged_trans)
qed

lemma applyFriction_keepsDragged: "keepsDragged ts ps (applyFriction ts ps)"
  by (auto simp: keepsDragged_def applyFriction_def nth_enumerate_eq)

lemma update_sessions:
  assumes "update g now = Inr g'"
  shows "activeTouches g' = activeTouches g \<and> keepsDragged (activeTouches g) (pucks g) (pucks g')
         \<and> width g' = width g \<and> height g' = height g"
proof (cases "gameState g = Playing")
  case False
  with assms show ?thesis by (simp add: update_def keepsDragged_refl)
next
  case True
  with assms obtain ps where ps: "physicsSteps steps g now (pucks g) = Inr ps"
    and g': "g' = winCondition (g\<lparr>pucks := applyFriction (activeTouches g) ps\<rparr>)
                (topCount (height g) (applyFriction (activeTouches g) ps))
                (bottomCount (height g) (applyFriction (activeTouches g) ps)) now"
    by (auto simp: update_def Let_def split: sum.splits)
  have "keepsDragged (activeTouches g) (pucks g) (applyFriction (activeTouches g) ps)"
    using physicsSteps_keepsDragged[OF ps] applyFriction_keepsDragged
    by (rule keepsDragged_trans)
  then show ?thesis by (simp add: g')
qed

lemma isDragged_iff: "isDragged ts i \<longleftrightarrow> i \<in> set (draggedIndices ts)"
  by (auto simp: isDragged_def draggedIndices_def list_ex_iff)

lemma sessionsOK_iff:
  "sessionsOK g \<longleftrightarrow>
     distinct (map fst (activeTouches g)) \<and> distinct (draggedIndices (activeTouches g)) \<and>
     (\<forall>j \<in> set (draggedIndices (activeTouches g)).
         j < length (pucks g) \<and> puck_vx (pucks g ! j) = 0 \<and> puck_vy (pucks g ! j) = 0)"
  by (simp add: sessionsOK_def list_all_iff)

lemma sessionsOK_initial: "sessionsOK (initialGame W H gap)"
  by (simp add: sessionsOK_def initialGame_def draggedIndices_def)

lemma sessionsOK_startGame: "sessionsOK (startGame rnd g)"
  by (simp add: sessionsOK_def startGame_def draggedIndices_def)

lemma draggedIndices_update_same:
  "map_of ts k = Some t \<Longrightarrow> puckIndex v = puckIndex t \<Longrightarrow>
     draggedIndices (AList.update k v ts) = draggedIndices ts"
  by (induction ts) (auto simp: draggedIndices_def split: if_splits)

lemma keys_update_same:
  "map_of ts k = Some t \<Longrightarrow> map fst (AList.update k v ts) = map fst ts"
  by (induction ts) (auto split: if_splits)

lemma draggedIndices_delete:
  assumes "distinct (draggedIndices ts)" "map_of ts k = Some t"
    and "j \<in> set (draggedIndices (AList.delete k ts))"
  shows "j \<in> set (draggedIndices ts) \<and> j \<noteq> puckIndex t"
proof -
  from assms(3) obtain k' t' where kt: "(k', t') \<in> set ts" "k' \<noteq> k" "j = puckIndex t'"
    by (auto simp: draggedIndices_def AList.delete_eq)
  have m: "(k, t) \<in> set ts" using assms(2) by (rule map_of_SomeD)
  have inj: "inj_on (\<lambda>kv. puckIndex (snd kv)) (set ts)"
    using assms(1) by (simp add: draggedIndices_def distinct_map)
  have "j \<noteq> puckIndex t"
  proof
    assume "j = puckIndex t"
    then have e: "(\<lambda>kv. puckIndex (snd kv)) (k', t') = (\<lambda>kv. puckIndex (snd kv)) (k, t)"
      using kt(3) by simp
    have "(k', t') = (k, t)" by (rule inj_onD[OF inj e kt(1) m])
    with kt(2) show False by simp
  qed
  moreover have "j \<in> set (draggedIndices ts)"
    using kt by (force simp: draggedIndices_def)
  ultimately show ?thesis by simp
qed

lemma distinct_draggedIndices_delete:
  "distinct (draggedIndices ts) \<Longrightarrow> distinct (draggedIndices (AList.delete k ts))"
  by (simp add: draggedIndices_def AList.delete_eq distinct_map_filter)

lemma handleStart_sessionsOK:
  assumes ok: "sessionsOK g"
  shows "sessionsOK (handleStart px py k rnd g)"
proof (cases "gameState g = Playing")
  case False
  then show ?thesis
    using ok by (cases "gameState g") (simp_all add: handleStart_def sessionsOK_startGame)
next
  case playing: True
  show ?thesis
  proof (cases "has (activeTouches g) k")
    case True
    with playing ok show ?thesis by (simp add: handleStart_def)
  next
    case fresh: False
    show ?thesis
    proof (cases "findIndex (hit g px py) (pucks g)")
      case None
      with playing fresh ok show ?thesis by (simp add: handleStart_def)
    next
      case (Some i)
      from findIndexFrom_Some[OF Some[unfolded findIndex_def]]
      have i: "i < length (pucks g)" "hit g px py (pucks g ! i) i" by auto
      then have nd: "i \<notin> set (draggedIndices (activeTouches g))"
        by (auto simp: hit_def isDragged_iff split: if_splits)
      show ?thesis
      proof (cases "(py < height g / 2) = (puck_y (pucks g ! i) < height g / 2)")
        case False
        with playing fresh Some ok show ?thesis by (simp add: handleStart_def Let_def)
      next
        case True
        define t where "t = \<lparr>puckIndex = i, startX = px, startY = py, currentX = px,
            currentY = py, anchor = None, side = (if py < height g / 2 then Top else Bottom)\<rparr>"
        have kf: "map_of (activeTouches g) k = None" using fresh by (simp add: has_def)
        have hs: "handleStart px py k rnd g =
            g\<lparr>activeTouches := activeTouches g @ [(k, t)],
              pucks := (pucks g)[i := (pucks g ! i)\<lparr>puck_vx := 0, puck_vy := 0\<rparr>]\<rparr>"
          using playing fresh Some True
          by (simp add: handleStart_def Let_def t_def update_fresh[OF kf])
        have knew: "k \<notin> fst ` set (activeTouches g)"
          using kf by (simp add: map_of_eq_None_iff)
        have di: "draggedIndices (activeTouches g @ [(k, t)]) = draggedIndices (activeTouches g) @ [i]"
          by (simp add: draggedIndices_def t_def)
        from ok have o: "distinct (map fst (activeTouches g))"
          "distinct (draggedIndices (activeTouches g))"
          "\<forall>j \<in> set (draggedIndices (activeTouches g)).
              j < length (pucks g) \<and> puck_vx (pucks g ! j) = 0 \<and> puck_vy (pucks g ! j) = 0"
          by (simp_all add: sessionsOK_iff)
        show ?thesis
          unfolding hs sessionsOK_iff
          using o knew nd i(1) by (auto simp: di nth_list_update)
      qed
    qed
  qed
qed

lemma handleMove_sessionsOK:
  assumes ok: "sessionsOK g" and mv: "handleMove px py k g = Inr g'"
  shows "sessionsOK g'"
proof (cases "map_of (activeTouches g) k")
  case None
  with mv ok show ?thesis by (simp add: handleMove_def)
next
  case (Some t)
  from ok have o: "distinct (map fst (activeTouches g))"
    "distinct (draggedIndices (activeTouches g))"
    "\<forall>j \<in> set (draggedIndices (activeTouches g)).
        j < length (pucks g) \<and> puck_vx (pucks g ! j) = 0 \<and> puck_vy (pucks g ! j) = 0"
    by (simp_all add: sessionsOK_iff)
  from Some mv have idx: "puckIndex t < length (pucks g)"
    by (auto simp: handleMove_def split: if_splits)
  from Some mv idx obtain p2 t2 where
    g': "g' = g\<lparr>pucks := (pucks g)[puckIndex t := p2],
                activeTouches := AList.update k t2 (activeTouches g)\<rparr>"
    and p2: "puck_vx p2 = puck_vx (pucks g ! puckIndex t)" "puck_vy p2 = puck_vy (pucks g ! puckIndex t)"
    and t2: "puckIndex t2 = puckIndex t"
    by (auto simp: handleMove_def Let_def split: if_splits)
  have keys: "map fst (activeTouches g') = map fst (activeTouches g)"
    by (simp add: g' keys_update_same[OF Some])
  have di: "draggedIndices (activeTouches g') = draggedIndices (activeTouches g)"
    by (simp add: g' draggedIndices_update_same[OF Some t2])
  have "\<forall>j \<in> set (draggedIndices (activeTouches g)).
        j < length (pucks g') \<and> puck_vx (pucks g' ! j) = 0 \<and> puck_vy (pucks g' ! j) = 0"
    using o(3) p2 idx by (auto simp: g' nth_list_update)
  then show ?thesis
    unfolding sessionsOK_iff keys di using o by simp
qed

lemma handleEnd_sessionsOK:
  assumes ok: "sessionsOK g" and en: "handleEnd k g = Inr g'"
  shows "sessionsOK g'"
proof (cases "map_of (activeTouches g) k")
  case None
  with en ok show ?thesis by (simp add: handleEnd_def)
next
  case (Some t)
  from ok have o: "distinct (map fst (activeTouches g))"
    "distinct (draggedIndices (activeTouches g))"
    "\<forall>j \<in> set (draggedIndices (activeTouches g)).
        j < length (pucks g) \<and> puck_vx (pucks g ! j) = 0 \<and> puck_vy (pucks g ! j) = 0"
    by (simp_all add: sessionsOK_iff)
  define ps' where "ps' = pucks g'"
  from handleEnd_Inr[OF en] Some have g': "activeTouches g' = AList.delete k (activeTouches g)"
    and ps': "length ps' = length (pucks g)" "\<forall>j. j \<noteq> puckIndex t \<longrightarrow> ps' ! j = pucks g ! j"
    by (auto simp: ps'_def)
  have "\<forall>j \<in> set (draggedIndices (AList.delete k (activeTouches g))).
        j < length ps' \<and> puck_vx (ps' ! j) = 0 \<and> puck_vy (ps' ! j) = 0"
  proof
    fix j assume "j \<in> set (draggedIndices (AList.delete k (activeTouches g)))"
    from draggedIndices_delete[OF o(2) Some this]
    have "j \<in> set (draggedIndices (activeTouches g))" "j \<noteq> puckIndex t" by auto
    then show "j < length ps' \<and> puck_vx (ps' ! j) = 0 \<and> puck_vy (ps' ! j) = 0"
      using o(3) ps' by auto
  qed
  then show ?thesis
    unfolding sessionsOK_iff g' ps'_def
    using o(1,2) by (simp add: distinct_delete distinct_draggedIndices_delete)
qed

lemma update_sessionsOK:
  assumes ok: "sessionsOK g" and up: "update g now = Inr g'"
  shows "sessionsOK g'"
proof -
  from update_sessions[OF up] have ts: "activeTouches g' = activeTouches g"
    and kd: "keepsDragged (activeTouches g) (pucks g) (pucks g')" by auto
  from ok have o: "distinct (map fst (activeTouches g))"
    "distinct (draggedIndices (activeTouches g))"
    "\<forall>j \<in> set (draggedIndices (activeTouches g)).
        j < length (pucks g) \<and> puck_vx (pucks g ! j) = 0 \<and> puck_vy (pucks g ! j) = 0"
    by (simp_all add: sessionsOK_iff)
  have "\<forall>j \<in> set (draggedIndices (activeTouches g)).
        j < length (pucks g') \<and> puck_vx (pucks g' ! j) = 0 \<and> puck_vy (pucks g' ! j) = 0"
    using o(3) kd by (auto simp: keepsDragged_def isDragged_iff)
  then show ?thesis unfolding sessionsOK_iff ts using o by simp
qed

lemma handleEvent_sessionsOK:
  "sessionsOK g \<Longrightarrow> handleEvent ev g = Inr g' \<Longrightarrow> sessionsOK g'"
proof (cases ev)
  case (Resize W H)
  assume "sessionsOK g" "handleEvent ev g = Inr g'"
  with Resize show ?thesis by (auto simp: handleResize_def sessionsOK_def)
qed (auto intro: handleStart_sessionsOK handleMove_sessionsOK handleEnd_sessionsOK
        update_sessionsOK)

lemma runEvents_sessionsOK:
  assumes "runEvents evs g0 = Inr g" "sessionsOK g0"
  shows "sessionsOK g"
  using assms(1)[unfolded runEvents_def] assms(2)
  by (rule foldE_invariant) (rule handleEvent_sessionsOK)

text \<open>Runs on the example states.\<close>

lemma startGame_row:
  "handleStart 0 0 Mouse rowRandom (initialGame 400 600 100) = rowGame 600 None"
  by (simp add: handleStart_def initialGame_def startGame_def spawn_def rowRandom_def
      rowGame_def rowPucks_def restPuck_def upt_rec)

lemma press_row:
  "handleStart 100 150 Mouse rowRandom (rowGame 600 None) =
     (rowGame 600 None)\<lparr>activeTouches := [(Mouse, dragTouch\<lparr>currentX := 100, currentY := 150\<rparr>)]\<rparr>"
  by (simp add: handleStart_def rowGame_def rowPucks_def restPuck_def has_def findIndex_def
      hit_def isDragged_def PUCK_RADIUS_def sqrt_less_iff_sq Let_def dragTouch_def)

lemma move_row:
  "handleMove 120 200 Mouse
     ((rowGame 600 None)\<lparr>activeTouches := [(Mouse, dragTouch\<lparr>currentX := 100, currentY := 150\<rparr>)]\<rparr>)
   = Inr dragGame"
  by (simp add: handleMove_def rowGame_def rowPucks_def restPuck_def dragGame_def dragTouch_def
      PUCK_RADIUS_def Let_def)

lemma pass_drag: "physicsPass dragGame now (pucks dragGame) = Inr (pucks dragGame)"
  by (simp add: dragGame_def rowGame_def rowPucks_def restPuck_def dragTouch_def pass_eval)

lemma update_drag: "update dragGame now = Inr dragGame"
proof -
  have f: "applyFriction (activeTouches dragGame) (pucks dragGame) = pucks dragGame"
    by (simp add: applyFriction_def dragGame_def rowGame_def rowPucks_def restPuck_def
        dragTouch_def isDragged_def enumerate_eq_zip upt_rec)
  have c: "topCount (height dragGame) (pucks dragGame) = 5"
          "bottomCount (height dragGame) (pucks dragGame) = 5"
    by (simp_all add: topCount_def bottomCount_def dragGame_def rowGame_def rowPucks_def
        restPuck_def)
  have p: "gameState dragGame = Playing" by (simp add: dragGame_def rowGame_def)
  have w: "winCondition dragGame 5 5 now = dragGame"
    by (simp add: winCondition_def dragGame_def rowGame_def)
  show ?thesis
    by (simp add: update_def p physicsSteps_fixpoint[OF pass_drag] f c w)
qed

lemma run_drag:
  "runEvents [PointerStart 0 0 Mouse rowRandom, PointerStart 100 150 Mouse rowRandom,
              PointerMove 120 200 Mouse, Frame 16] (initialGame 400 600 100) = Inr dragGame"
  by (simp add: runEvents_def startGame_row press_row move_row update_drag)

lemma run_two:
  "runEvents [PointerStart 0 0 Mouse rowRandom, PointerStart 100 150 (TouchId 1) rowRandom,
              PointerStart 100 150 (TouchId 2) rowRandom] (initialGame 400 600 100)
   = Inr ((rowGame 600 None)\<lparr>activeTouches := twoTouches\<rparr>)"
  by (simp add: runEvents_def startGame_row)
     (simp add: handleStart_def rowGame_def rowPucks_def restPuck_def has_def findIndex_def
      hit_def isDragged_def PUCK_RADIUS_def sqrt_less_iff_sq Let_def twoTouches_def)

lemma handleEnd_anchorless:
  "map_of (activeTouches g) k = Some t \<Longrightarrow> anchor t = None \<Longrightarrow>
     handleEnd k g = Inr (g\<lparr>activeTouches := AList.delete k (activeTouches g)\<rparr>)"
  by (simp add: handleEnd_def)

text \<open>
  Claim C4. In every state reached from the initial state by pointer events, frames and
  resizes, a drag session that has no anchor set is released by \<open>handleEnd\<close> with the
  velocity of its puck exactly \<open>(0, 0)\<close>: the press zeroed the velocity, frames skip dragged
  pucks in the physics and in the friction, moves and the other sessions do not write it,
  and the release without an anchor writes nothing.
\<close>

theorem anchorless_release_zero_velocity:
  assumes run: "runEvents evs (initialGame W H gap) = Inr g"
    and sess: "map_of (activeTouches g) k = Some t"
    and noanchor: "anchor t = None"
  shows "\<exists>g'. handleEnd k g = Inr g' \<and> puckIndex t < length (pucks g') \<and>
           puck_vx (pucks g' ! puckIndex t) = 0 \<and> puck_vy (pucks g' ! puckIndex t) = 0"
proof -
  have ok: "sessionsOK g"
    using run sessionsOK_initial by (rule runEvents_sessionsOK)
  have "(k, t) \<in> set (activeTouches g)" using sess by (rule map_of_SomeD)
  then have "puckIndex t \<in> set (draggedIndices (activeTouches g))"
    by (force simp: draggedIndices_def)
  with ok have z: "puckIndex t < length (pucks g)" "puck_vx (pucks g ! puckIndex t) = 0"
    "puck_vy (pucks g ! puckIndex t) = 0"
    by (simp_all add: sessionsOK_iff)
  show ?thesis
    unfolding handleEnd_anchorless[OF sess noanchor] using z by simp
qed

theorem anchorless_release_zero_velocity_witness:
  "runEvents [PointerStart 0 0 Mouse rowRandom, PointerStart 100 150 Mouse rowRandom,
              PointerMove 120 200 Mouse, Frame 16] (initialGame 400 600 100) = Inr dragGame \<and>
   map_of (activeTouches dragGame) Mouse = Some dragTouch \<and> anchor dragTouch = None \<and>
   (\<exists>g'. handleEnd Mouse dragGame = Inr g' \<and>
      puck_vx (pucks g' ! 0) = 0 \<and> puck_vy (pucks g' ! 0) = 0)"
proof -
  have s: "map_of (activeTouches dragGame) Mouse = Some dragTouch"
    by (simp add: dragGame_def)
  have a: "anchor dragTouch = None" by (simp add: dragTouch_def)
  from anchorless_release_zero_velocity[OF run_drag s a]
  have "\<exists>g'. handleEnd Mouse dragGame = Inr g' \<and>
      puck_vx (pucks g' ! 0) = 0 \<and> puck_vy (pucks g' ! 0) = 0"
    by (auto simp: dragTouch_def)
  with run_drag s a show ?thesis by simp
qed

lemma handleStart_touches:
  "activeTouches (handleStart px py k rnd g) = activeTouches g \<or>
   activeTouches (handleStart px py k rnd g) = [] \<or>
   (\<exists>t. gameState g = Playing \<and> \<not> has (activeTouches g) k \<and>
        \<not> isDragged (activeTouches g) (puckIndex t) \<and>
        puckIndex t < length (pucks g) \<and>
        hit g px py (pucks g ! puckIndex t) (puckIndex t) \<and>
        activeTouches (handleStart px py k rnd g) = activeTouches g @ [(k, t)])"
proof (cases "gameState g = Playing")
  case False
  then show ?thesis by (cases "gameState g") (simp_all add: handleStart_def startGame_def)
next
  case playing: True
  show ?thesis
  proof (cases "has (activeTouches g) k")
    case True
    with playing show ?thesis by (simp add: handleStart_def)
  next
    case fresh: False
    then have kf: "map_of (activeTouches g) k = None" by (simp add: has_def)
    show ?thesis
    proof (cases "findIndex (hit g px py) (pucks g)")
      case None
      with playing fresh show ?thesis by (simp add: handleStart_def)
    next
      case (Some i)
      from findIndexFrom_Some[OF Some[unfolded findIndex_def]]
      have h: "hit g px py (pucks g ! i) i" and il: "i < length (pucks g)" by auto
      then have nd: "\<not> isDragged (activeTouches g) i"
        by (auto simp: hit_def split: if_splits)
      show ?thesis
        using playing fresh Some nd h il
        by (auto simp: handleStart_def Let_def update_fresh[OF kf])
    qed
  qed
qed

text \<open>
  Claim C8. In every state reached from the initial state by pointer start, move, end and
  cancel events (and frames and resizes), no two sessions have the same pointer identifier
  and no two sessions reference the same puck index. A start for an identifier that already
  has a session creates no session (the sessions stay as they are while playing, and are
  cleared when the press restarts the match), and every session that references an
  already claimed puck after a start is the session that claimed it before. A start
  leaves the sessions as they are, or clears them, or adds exactly one session, for a
  pointer that had none, on a puck that no session references and that is within the
  pick radius of the press: so a press on a claimed puck adds no second session on that
  puck, but it can add a session on another puck.
\<close>

theorem sessions_unique:
  assumes run: "runEvents evs (initialGame W H gap) = Inr g"
  shows "distinct (map fst (activeTouches g)) \<and>
         distinct (map (\<lambda>kv. puckIndex (snd kv)) (activeTouches g)) \<and>
         (has (activeTouches g) k \<longrightarrow>
            activeTouches (handleStart px py k rnd g) =
              (if gameState g = Playing then activeTouches g else [])) \<and>
         (\<forall>k' t'. map_of (activeTouches (handleStart px py k rnd g)) k' = Some t' \<and>
                  isDragged (activeTouches g) (puckIndex t') \<longrightarrow>
                  map_of (activeTouches g) k' = Some t') \<and>
         (activeTouches (handleStart px py k rnd g) = activeTouches g \<or>
          activeTouches (handleStart px py k rnd g) = [] \<or>
          (\<exists>t. gameState g = Playing \<and> \<not> has (activeTouches g) k \<and>
               \<not> isDragged (activeTouches g) (puckIndex t) \<and>
               puckIndex t < length (pucks g) \<and>
               hit g px py (pucks g ! puckIndex t) (puckIndex t) \<and>
               activeTouches (handleStart px py k rnd g) = activeTouches g @ [(k, t)]))"
proof -
  have ok: "sessionsOK g"
    using run sessionsOK_initial by (rule runEvents_sessionsOK)
  then have d: "distinct (map fst (activeTouches g))"
    "distinct (map (\<lambda>kv. puckIndex (snd kv)) (activeTouches g))"
    by (simp_all add: sessionsOK_iff draggedIndices_def)
  have second: "has (activeTouches g) k \<longrightarrow>
            activeTouches (handleStart px py k rnd g) =
              (if gameState g = Playing then activeTouches g else [])"
    by (cases "gameState g") (simp_all add: handleStart_def startGame_def)
  have claimed: "\<forall>k' t'. map_of (activeTouches (handleStart px py k rnd g)) k' = Some t' \<and>
                  isDragged (activeTouches g) (puckIndex t') \<longrightarrow>
                  map_of (activeTouches g) k' = Some t'"
  proof (intro allI impI)
    fix k' t'
    assume a: "map_of (activeTouches (handleStart px py k rnd g)) k' = Some t' \<and>
                  isDragged (activeTouches g) (puckIndex t')"
    from handleStart_touches[of px py k rnd g]
    consider "activeTouches (handleStart px py k rnd g) = activeTouches g"
      | "activeTouches (handleStart px py k rnd g) = []"
      | t where "\<not> has (activeTouches g) k" "\<not> isDragged (activeTouches g) (puckIndex t)"
          "activeTouches (handleStart px py k rnd g) = activeTouches g @ [(k, t)]"
      by blast
    then show "map_of (activeTouches g) k' = Some t'"
    proof cases
      case 1
      with a show ?thesis by simp
    next
      case 2
      with a show ?thesis by simp
    next
      case 3
      have kf: "map_of (activeTouches g) k = None" using 3(1) by (simp add: has_def)
      show ?thesis
      proof (cases "k' = k")
        case True
        with a 3(3) kf have "t' = t" by (simp add: map_add_def)
        with a 3(2) show ?thesis by simp
      next
        case False
        with a 3(3) show ?thesis by (auto simp: map_add_def split: option.splits)
      qed
    qed
  qed
  from d second claimed handleStart_touches[of px py k rnd g] show ?thesis by blast
qed

theorem sessions_unique_witness:
  "runEvents [PointerStart 0 0 Mouse rowRandom, PointerStart 100 150 (TouchId 1) rowRandom,
              PointerStart 100 150 (TouchId 2) rowRandom] (initialGame 400 600 100)
     = Inr ((rowGame 600 None)\<lparr>activeTouches := twoTouches\<rparr>) \<and>
   map fst twoTouches = [TouchId 1, TouchId 2] \<and>
   map (\<lambda>kv. puckIndex (snd kv)) twoTouches = [0, 1] \<and>
   distinct (map fst twoTouches) \<and>
   distinct (map (\<lambda>kv. puckIndex (snd kv)) twoTouches) \<and>
   has twoTouches (TouchId 1) \<and>
   activeTouches (handleStart 100 150 (TouchId 1) rowRandom
                    ((rowGame 600 None)\<lparr>activeTouches := twoTouches\<rparr>)) = twoTouches"
proof -
  have h: "has twoTouches (TouchId 1)" by (simp add: has_def twoTouches_def)
  have p: "gameState ((rowGame 600 None)\<lparr>activeTouches := twoTouches\<rparr>) = Playing"
    by (simp add: rowGame_def)
  from sessions_unique[OF run_two, of "TouchId 1" 100 150 rowRandom] h p
  have "distinct (map fst twoTouches) \<and>
        distinct (map (\<lambda>kv. puckIndex (snd kv)) twoTouches) \<and>
        activeTouches (handleStart 100 150 (TouchId 1) rowRandom
                    ((rowGame 600 None)\<lparr>activeTouches := twoTouches\<rparr>)) = twoTouches"
    by simp
  moreover have "map fst twoTouches = [TouchId 1, TouchId 2]"
    "map (\<lambda>kv. puckIndex (snd kv)) twoTouches = [0, 1]"
    by (simp_all add: twoTouches_def)
  ultimately show ?thesis using run_two h by simp
qed

text \<open>
  Claim C8 as stated fails in its last part: a press on an already claimed puck can create
  a new session. Puck 0, at \<open>(100, 150)\<close>, is claimed by touch 1; touch 2 presses at its
  centre. The hit test skips puck 0 and finds puck 1, at \<open>(140, 150)\<close>, within the pick
  radius of 45 pixels, and a second session is created, on puck 1.
\<close>

theorem press_on_claimed_puck_claims_neighbour:
  "runEvents [PointerStart 0 0 Mouse rowRandom, PointerStart 100 150 (TouchId 1) rowRandom]
     (initialGame 400 600 100)
     = Inr ((rowGame 600 None)\<lparr>activeTouches :=
              [(TouchId 1, \<lparr>puckIndex = 0, startX = 100, startY = 150, currentX = 100,
                            currentY = 150, anchor = None, side = Top\<rparr>)]\<rparr>) \<and>
   puck_x (rowPucks ! 0) = 100 \<and> puck_y (rowPucks ! 0) = 150 \<and>
   isDragged [(TouchId 1, \<lparr>puckIndex = 0, startX = 100, startY = 150, currentX = 100,
                            currentY = 150, anchor = None, side = Top\<rparr>)] 0 \<and>
   activeTouches (handleStart 100 150 (TouchId 2) rowRandom
     ((rowGame 600 None)\<lparr>activeTouches :=
        [(TouchId 1, \<lparr>puckIndex = 0, startX = 100, startY = 150, currentX = 100,
                      currentY = 150, anchor = None, side = Top\<rparr>)]\<rparr>))
     = [(TouchId 1, \<lparr>puckIndex = 0, startX = 100, startY = 150, currentX = 100,
                     currentY = 150, anchor = None, side = Top\<rparr>),
        (TouchId 2, \<lparr>puckIndex = 1, startX = 100, startY = 150, currentX = 100,
                     currentY = 150, anchor = None, side = Top\<rparr>)]"
proof -
  have "runEvents [PointerStart 0 0 Mouse rowRandom, PointerStart 100 150 (TouchId 1) rowRandom]
     (initialGame 400 600 100)
     = Inr ((rowGame 600 None)\<lparr>activeTouches :=
              [(TouchId 1, \<lparr>puckIndex = 0, startX = 100, startY = 150, currentX = 100,
                            currentY = 150, anchor = None, side = Top\<rparr>)]\<rparr>)"
    by (simp add: runEvents_def startGame_row)
       (simp add: handleStart_def rowGame_def rowPucks_def restPuck_def has_def findIndex_def
        hit_def isDragged_def PUCK_RADIUS_def sqrt_less_iff_sq Let_def)
  moreover have "activeTouches (handleStart 100 150 (TouchId 2) rowRandom
     ((rowGame 600 None)\<lparr>activeTouches :=
        [(TouchId 1, \<lparr>puckIndex = 0, startX = 100, startY = 150, currentX = 100,
                      currentY = 150, anchor = None, side = Top\<rparr>)]\<rparr>))
     = [(TouchId 1, \<lparr>puckIndex = 0, startX = 100, startY = 150, currentX = 100,
                     currentY = 150, anchor = None, side = Top\<rparr>),
        (TouchId 2, \<lparr>puckIndex = 1, startX = 100, startY = 150, currentX = 100,
                     currentY = 150, anchor = None, side = Top\<rparr>)]"
    by (simp add: handleStart_def rowGame_def rowPucks_def restPuck_def has_def findIndex_def
        hit_def isDragged_def PUCK_RADIUS_def sqrt_less_iff_sq Let_def)
  moreover have "puck_x (rowPucks ! 0) = 100" "puck_y (rowPucks ! 0) = 150"
    by (simp_all add: rowPucks_def restPuck_def)
  ultimately show ?thesis by (simp add: isDragged_def)
qed

text \<open>
  No run from the initial state throws: every session's puck index is in range whenever
  \<open>handleMove\<close> or \<open>handleEnd\<close> reads the puck, and a frame fails only by producing a
  non-finite number.
\<close>

lemma foldE_not_TypeError:
  "(\<And>a s. f a s \<noteq> Inl TypeError) \<Longrightarrow> foldE f xs s \<noteq> Inl TypeError"
  by (induction xs arbitrary: s) (auto split: sum.splits)

lemma ballCollision_not_TypeError: "ballCollision p other \<noteq> Inl TypeError"
  by (auto simp: ballCollision_def Let_def jsdiv_def split: if_splits)

lemma ballLoop_not_TypeError: "ballLoop ts index js ps \<noteq> Inl TypeError"
  by (induction js arbitrary: ps)
     (auto simp: ballCollision_not_TypeError split: sum.splits prod.splits)

lemma checkCapCollision_not_TypeError: "checkCapCollision p capX capY r \<noteq> Inl TypeError"
  by (simp add: checkCapCollision_Inr)

lemma segmentCollision_not_TypeError: "segmentCollision W H seg p \<noteq> Inl TypeError"
  by (auto simp: segmentCollision_def Let_def checkCapCollision_Inr split: sum.splits)

lemma getOffset_not_TypeError: "getOffset W now sf rf ph \<noteq> Inl TypeError"
  by (auto simp: getOffset_def jsdiv_def Let_def)

lemma getWallSegments_not_TypeError: "getWallSegments g now \<noteq> Inl TypeError"
  using getOffset_not_TypeError
  by (auto simp: getWallSegments_def Let_def split: sum.splits)

lemma puckPhysics_not_TypeError: "puckPhysics g now index ps \<noteq> Inl TypeError"
  using getWallSegments_not_TypeError
    foldE_not_TypeError[of "segmentCollision (width g) (height g)", OF segmentCollision_not_TypeError]
    foldE_not_TypeError[of obstacleCollision]
    ballLoop_not_TypeError
  by (auto simp: puckPhysics_def Let_def obstacleCollision_def checkCapCollision_not_TypeError
      split: sum.splits)

lemma physicsSteps_not_TypeError: "physicsSteps n g now ps \<noteq> Inl TypeError"
proof (induction n arbitrary: ps)
  case 0
  show ?case by simp
next
  case (Suc n)
  have "physicsPass g now ps \<noteq> Inl TypeError"
    unfolding physicsPass_def by (rule foldE_not_TypeError) (rule puckPhysics_not_TypeError)
  with Suc show ?case by (auto split: sum.splits)
qed

lemma update_not_TypeError: "update g now \<noteq> Inl TypeError"
  using physicsSteps_not_TypeError by (auto simp: update_def Let_def split: sum.splits)

lemma handleEvent_not_TypeError:
  assumes ok: "sessionsOK g"
  shows "handleEvent ev g \<noteq> Inl TypeError"
proof -
  have idx: "\<And>k t. map_of (activeTouches g) k = Some t \<Longrightarrow> puckIndex t < length (pucks g)"
  proof -
    fix k t assume "map_of (activeTouches g) k = Some t"
    then have "(k, t) \<in> set (activeTouches g)" by (rule map_of_SomeD)
    then have "puckIndex t \<in> set (draggedIndices (activeTouches g))"
      by (force simp: draggedIndices_def)
    with ok show "puckIndex t < length (pucks g)" by (simp add: sessionsOK_iff)
  qed
  show ?thesis
  proof (cases ev)
    case (PointerMove px py k)
    then show ?thesis
      by (auto simp: handleMove_def Let_def split: option.splits dest!: idx)
  next
    case (PointerEnd k)
    then show ?thesis
      by (auto dest!: handleEnd_TypeError idx)
  next
    case (PointerCancel k)
    then show ?thesis
      by (auto dest!: handleEnd_TypeError idx)
  next
    case (Frame now)
    then show ?thesis by (simp add: update_not_TypeError)
  qed simp_all
qed

theorem runEvents_never_TypeError:
  "runEvents evs (initialGame W H gap) \<noteq> Inl TypeError"
proof -
  have "sessionsOK g \<Longrightarrow> foldE handleEvent evs g \<noteq> Inl TypeError" for g
  proof (induction evs arbitrary: g)
    case Nil
    show ?case by simp
  next
    case (Cons ev evs)
    show ?case
    proof (cases "handleEvent ev g")
      case (Inl e)
      with handleEvent_not_TypeError[OF Cons.prems, of ev] show ?thesis by simp
    next
      case (Inr g')
      with Cons.prems have "sessionsOK g'" by (rule handleEvent_sessionsOK)
      from Cons.IH[OF this] Inr show ?thesis by simp
    qed
  qed
  from this[OF sessionsOK_initial] show ?thesis by (simp add: runEvents_def)
qed

subsection \<open>The win debounce\<close>

lemma handleMove_winTimestamp:
  "handleMove px py k g = Inr g' \<Longrightarrow> winTimestamp g' = winTimestamp g"
  by (auto simp: handleMove_def Let_def split: option.splits if_splits)

lemma handleEnd_winTimestamp:
  "handleEnd k g = Inr g' \<Longrightarrow> winTimestamp g' = winTimestamp g"
  by (auto dest!: handleEnd_Inr)

lemma streak_snoc:
  assumes "streak d es g" and "foldE handleEvent es g = Inr h"
    and "handleEvent e h = Inr h'"
    and "gameState h' = Playing" and "winTimestamp h' = Some d"
    and "case e of Frame t \<Rightarrow> zeroCount h' | _ \<Rightarrow> True"
  shows "streak d (es @ [e]) g"
  using assms
proof (induction es arbitrary: g)
  case Nil
  then show ?case by simp
next
  case (Cons a es)
  from Cons.prems(1) obtain u where u: "handleEvent a g = Inr u"
    and s: "gameState u = Playing" "winTimestamp u = Some d"
      "case a of Frame t \<Rightarrow> zeroCount u | _ \<Rightarrow> True" "streak d es u"
    by (auto split: sum.splits)
  from Cons.prems(2) u have f: "foldE handleEvent es u = Inr h" by simp
  from Cons.IH[OF s(4) f Cons.prems(3-6)] u s show ?case by simp
qed

lemma update_frame_cases:
  assumes p: "gameState g = Playing" and u: "update g now = Inr g'"
  shows "height g' = height g"
    and "\<not> zeroCount g' \<Longrightarrow> gameState g' = Playing \<and> winTimestamp g' = None"
    and "zeroCount g' \<Longrightarrow> falsy (winTimestamp g) \<Longrightarrow>
           gameState g' = Playing \<and> winTimestamp g' = Some (now + 800)"
    and "zeroCount g' \<Longrightarrow> winTimestamp g = Some t \<Longrightarrow> t \<noteq> 0 \<Longrightarrow> now \<le> t \<Longrightarrow>
           gameState g' = Playing \<and> winTimestamp g' = Some t"
    and "gameState g' = Won \<Longrightarrow>
           zeroCount g' \<and> (\<exists>t. winTimestamp g = Some t \<and> t \<noteq> 0 \<and> t < now)"
    and "gameState g' = Playing \<Longrightarrow> winTimestamp g' = Some d \<Longrightarrow>
           zeroCount g' \<and>
           ((falsy (winTimestamp g) \<and> d = now + 800) \<or> (winTimestamp g = Some d \<and> d \<noteq> 0))"
    and "gameState g' \<noteq> Start"
proof -
  define tc where "tc = topCount (height g) (pucks g')"
  define bc where "bc = bottomCount (height g) (pucks g')"
  define w where "w = winCondition (g\<lparr>pucks := pucks g'\<rparr>) tc bc now"
  have r: "g' = w"
    unfolding w_def tc_def bc_def by (rule update_playing_result[OF p u])
  have h: "height w = height g" by (simp add: w_def)
  then show hg: "height g' = height g" using r by simp
  have z: "zeroCount g' = (tc = 0 \<or> bc = 0)"
    unfolding zeroCount_def hg tc_def bc_def by simp
  show "\<not> zeroCount g' \<Longrightarrow> gameState g' = Playing \<and> winTimestamp g' = None"
    unfolding z unfolding r using p by (simp add: w_def winCondition_def)
  show "zeroCount g' \<Longrightarrow> falsy (winTimestamp g) \<Longrightarrow>
           gameState g' = Playing \<and> winTimestamp g' = Some (now + 800)"
    unfolding z unfolding r using p
    by (auto simp: w_def winCondition_def falsy_def split: option.splits)
  show "zeroCount g' \<Longrightarrow> winTimestamp g = Some t \<Longrightarrow> t \<noteq> 0 \<Longrightarrow> now \<le> t \<Longrightarrow>
           gameState g' = Playing \<and> winTimestamp g' = Some t"
    unfolding z unfolding r using p
    by (auto simp: w_def winCondition_def falsy_def split: option.splits)
  show "gameState g' = Won \<Longrightarrow>
           zeroCount g' \<and> (\<exists>t. winTimestamp g = Some t \<and> t \<noteq> 0 \<and> t < now)"
    unfolding z unfolding r using p
    by (auto simp: w_def winCondition_def falsy_def split: option.splits if_splits)
  show "gameState g' = Playing \<Longrightarrow> winTimestamp g' = Some d \<Longrightarrow>
           zeroCount g' \<and>
           ((falsy (winTimestamp g) \<and> d = now + 800) \<or> (winTimestamp g = Some d \<and> d \<noteq> 0))"
    unfolding z unfolding r using p
    by (auto simp: w_def winCondition_def falsy_def split: option.splits if_splits)
  show "gameState g' \<noteq> Start"
    unfolding r using p
    by (auto simp: w_def winCondition_def falsy_def split: option.splits if_splits)
qed

lemma handleStart_playing:
  "gameState g = Playing \<Longrightarrow>
     gameState (handleStart px py k rnd g) = Playing \<and>
     winTimestamp (handleStart px py k rnd g) = winTimestamp g"
  by (auto simp: handleStart_def Let_def split: option.splits)

lemma handleStart_starts:
  "gameState g \<noteq> Playing \<Longrightarrow>
     gameState (handleStart px py k rnd g) = Playing \<and>
     winTimestamp (handleStart px py k rnd g) = None"
  by (cases "gameState g") (simp_all add: handleStart_def startGame_def)

lemma handleMove_gameState:
  "handleMove px py k g = Inr g' \<Longrightarrow> gameState g' = gameState g"
  by (auto simp: handleMove_def Let_def split: option.splits if_splits)

lemma handleEnd_gameState:
  "handleEnd k g = Inr g' \<Longrightarrow> gameState g' = gameState g"
  by (auto dest!: handleEnd_Inr)

lemma quiet_event:
  assumes "handleEvent e g = Inr g'" and "gameState g = Playing"
    and "case e of Frame t \<Rightarrow> False | _ \<Rightarrow> True"
  shows "gameState g' = Playing \<and> winTimestamp g' = winTimestamp g"
proof (cases e)
  case (PointerStart px py k rnd)
  with assms handleStart_playing[of g px py k rnd] show ?thesis by auto
next
  case (PointerMove px py k)
  with assms handleMove_gameState[of px py k g g'] handleMove_winTimestamp[of px py k g g']
  show ?thesis by simp
next
  case (PointerEnd k)
  with assms handleEnd_gameState[of k g g'] handleEnd_winTimestamp[of k g g']
  show ?thesis by simp
next
  case (PointerCancel k)
  with assms handleEnd_gameState[of k g g'] handleEnd_winTimestamp[of k g g']
  show ?thesis by simp
next
  case (Frame t)
  with assms show ?thesis by simp
next
  case (Resize W H)
  with assms show ?thesis by (auto simp: handleResize_def)
qed

lemma quiet_run:
  assumes "foldE handleEvent post g1 = Inr g" and "noFrame post" and "gameState g1 = Playing"
  shows "gameState g = Playing \<and> winTimestamp g = winTimestamp g1"
  using assms
proof (induction post arbitrary: g1)
  case Nil
  then show ?case by simp
next
  case (Cons e post)
  from Cons.prems(1) obtain u where u: "handleEvent e g1 = Inr u"
    and f: "foldE handleEvent post u = Inr g"
    by (auto split: sum.splits)
  from Cons.prems(2) have q: "case e of Frame t \<Rightarrow> False | _ \<Rightarrow> True" and n: "noFrame post"
    by (simp_all add: noFrame_def)
  from quiet_event[OF u Cons.prems(3) q] Cons.IH[OF f n] show ?case by simp
qed

lemma handleEvent_armedSince:
  assumes run: "runEvents evs init = Inr g"
    and inv: "armedSince init evs g"
    and ev: "handleEvent e g = Inr g2"
  shows "armedSince init (evs @ [e]) g2"
  unfolding armedSince_def
proof (intro allI impI)
  fix d
  assume a: "gameState g2 = Playing \<and> winTimestamp g2 = Some d"
  let ?P = "\<lambda>evs' g'. \<exists>pre t0 post g0 g1.
            evs' = pre @ Frame t0 # post \<and>
            runEvents pre init = Inr g0 \<and>
            gameState g0 = Playing \<and> falsy (winTimestamp g0) \<and>
            update g0 t0 = Inr g1 \<and> zeroCount g1 \<and>
            gameState g1 = Playing \<and> winTimestamp g1 = Some d \<and> d = t0 + 800 \<and>
            streak d post g1 \<and> foldE handleEvent post g1 = Inr g'"
  have extend: "?P (evs @ [e]) g2"
    if old: "gameState g = Playing" "winTimestamp g = Some d"
      and fr: "case e of Frame t \<Rightarrow> zeroCount g2 | _ \<Rightarrow> True"
  proof -
    from inv old obtain pre t0 post g0 g1 where
      o: "evs = pre @ Frame t0 # post" "runEvents pre init = Inr g0"
        "gameState g0 = Playing" "falsy (winTimestamp g0)"
        "update g0 t0 = Inr g1" "zeroCount g1"
        "gameState g1 = Playing" "winTimestamp g1 = Some d" "d = t0 + 800"
        "streak d post g1" "foldE handleEvent post g1 = Inr g"
      unfolding armedSince_def by blast
    have s: "streak d (post @ [e]) g1"
      using o(10) o(11) ev a fr by (intro streak_snoc) auto
    have f: "foldE handleEvent (post @ [e]) g1 = Inr g2"
      using o(11) ev by (simp add: foldE_append)
    have "evs @ [e] = pre @ Frame t0 # (post @ [e])" using o(1) by simp
    with o s f show ?thesis by blast
  qed
  show "?P (evs @ [e]) g2"
  proof (cases e)
    case (Frame t)
    with ev have u: "update g t = Inr g2" by simp
    have p: "gameState g = Playing"
    proof (rule ccontr)
      assume n: "gameState g \<noteq> Playing"
      with u have "g2 = g" by (simp add: update_def)
      with a n show False by simp
    qed
    from update_frame_cases(6)[OF p u, of d] a
    have z: "zeroCount g2"
      and c: "(falsy (winTimestamp g) \<and> d = t + 800) \<or> (winTimestamp g = Some d \<and> d \<noteq> 0)"
      by blast+
    from c show ?thesis
    proof
      assume n: "falsy (winTimestamp g) \<and> d = t + 800"
      have "evs @ [e] = evs @ Frame t # []" using Frame by simp
      with run p n u z a show ?thesis by (intro exI[of _ evs] exI[of _ t] exI[of _ "[]"] exI[of _ g] exI[of _ g2]) simp
    next
      assume "winTimestamp g = Some d \<and> d \<noteq> 0"
      then show ?thesis using p z Frame by (intro extend) simp_all
    qed
  next
    case (PointerStart px py k rnd)
    show ?thesis
    proof (cases "gameState g = Playing")
      case True
      with handleStart_playing[OF True, of px py k rnd] ev a PointerStart
      show ?thesis by (intro extend) auto
    next
      case False
      with handleStart_starts[OF False, of px py k rnd] ev a PointerStart
      show ?thesis by auto
    qed
  next
    case (PointerMove px py k)
    with ev a handleMove_gameState[of px py k g g2] handleMove_winTimestamp[of px py k g g2]
    show ?thesis by (intro extend) auto
  next
    case (PointerEnd k)
    with ev a handleEnd_gameState[of k g g2] handleEnd_winTimestamp[of k g g2]
    show ?thesis by (intro extend) auto
  next
    case (PointerCancel k)
    with ev a handleEnd_gameState[of k g g2] handleEnd_winTimestamp[of k g g2]
    show ?thesis by (intro extend) auto
  next
    case (Resize W H)
    with ev a show ?thesis by (intro extend) (auto simp: handleResize_def)
  qed
qed

lemma runEvents_armedSince:
  "runEvents evs (initialGame W H gap) = Inr g \<Longrightarrow> armedSince (initialGame W H gap) evs g"
proof (induction evs arbitrary: g rule: rev_induct)
  case Nil
  then show ?case by (auto simp: runEvents_def armedSince_def initialGame_def)
next
  case (snoc ev evs)
  from snoc.prems obtain u where u: "runEvents evs (initialGame W H gap) = Inr u"
    and s: "handleEvent ev u = Inr g"
    by (auto simp: runEvents_def foldE_append split: sum.splits)
  from u snoc.IH[OF u] s show ?case by (rule handleEvent_armedSince)
qed

lemma pass_tall:
  "physicsPass (rowGame 1000 wt) now rowPucks = Inr rowPucks"
  by (simp add: rowGame_def rowPucks_def restPuck_def pass_eval)

lemma update_tall:
  "update (rowGame 1000 wt) now = Inr (winCondition (rowGame 1000 wt) 10 0 now)"
proof -
  have f: "applyFriction [] rowPucks = rowPucks"
    by (simp add: applyFriction_def rowPucks_def restPuck_def isDragged_def enumerate_eq_zip
        upt_rec)
  have c: "topCount 1000 rowPucks = 10" "bottomCount 1000 rowPucks = 0"
    by (simp_all add: topCount_def bottomCount_def rowPucks_def restPuck_def)
  have s: "gameState (rowGame 1000 wt) = Playing" "pucks (rowGame 1000 wt) = rowPucks"
    "activeTouches (rowGame 1000 wt) = []" "height (rowGame 1000 wt) = 1000"
    "(rowGame 1000 wt)\<lparr>pucks := rowPucks\<rparr> = rowGame 1000 wt"
    by (simp_all add: rowGame_def)
  show ?thesis
    by (simp add: update_def physicsSteps_fixpoint[OF pass_tall] s f c)
qed

lemma run_tall:
  "runEvents [PointerStart 0 0 Mouse rowRandom, Resize 400 1000, Frame 1000]
     (initialGame 400 600 100) = Inr (rowGame 1000 (Some 1800))"
proof -
  have r: "handleResize 400 1000 (rowGame 600 None) = rowGame 1000 None"
    by (simp add: handleResize_def rowGame_def)
  have w: "winCondition (rowGame 1000 None) 10 0 1000 = rowGame 1000 (Some 1800)"
    by (simp add: winCondition_def rowGame_def)
  show ?thesis
    by (simp add: runEvents_def startGame_row r update_tall w)
qed

lemma run_tall0:
  "runEvents [PointerStart 0 0 Mouse rowRandom, Resize 400 1000]
     (initialGame 400 600 100) = Inr (rowGame 1000 None)"
proof -
  have r: "handleResize 400 1000 (rowGame 600 None) = rowGame 1000 None"
    by (simp add: handleResize_def rowGame_def)
  show ?thesis
    by (simp add: runEvents_def startGame_row r)
qed

lemma zeroCount_tall: "zeroCount (rowGame 1000 wt)"
  by (simp add: zeroCount_def rowGame_def topCount_def bottomCount_def rowPucks_def restPuck_def)

text \<open>
  Claim C2, as the code has it. In a state reached from the initial state, a frame of a
  playing match whose physics returns numbers ends in \<open>won\<close> only if it observes a zero
  count and the run holds an earlier frame, at clock reading \<open>t0\<close> more than 800 ms before
  this frame's, that found the timer unset, observed a zero count and set the timer to
  \<open>t0 + 800\<close>, and since that frame the match stayed \<open>playing\<close> with this timer and
  every frame observed a zero count. A frame that observes both sides non-empty clears the
  timer and stays \<open>playing\<close>. A frame that observes a zero count on either side sets an
  unset timer to its clock reading plus 800, and leaves a set timer that has not elapsed
  as it is: there is one timer for both sides, so it keeps running when the empty side
  changes without a frame in between that sees both sides non-empty. The timer is unset
  at the first frame after the press that started the match and at the first frame after
  a frame that observed both sides non-empty, so a zero count observed by such a frame
  only sets the timer.
\<close>

theorem win_debounce:
  assumes run: "runEvents evs (initialGame W H gap) = Inr g"
    and playing: "gameState g = Playing"
    and upd: "update g now = Inr g'"
  shows "(gameState g' = Won \<longrightarrow>
            zeroCount g' \<and>
            (\<exists>pre t0 post g0 g1.
                evs = pre @ Frame t0 # post \<and>
                runEvents pre (initialGame W H gap) = Inr g0 \<and>
                gameState g0 = Playing \<and> falsy (winTimestamp g0) \<and>
                update g0 t0 = Inr g1 \<and> zeroCount g1 \<and>
                gameState g1 = Playing \<and> winTimestamp g1 = Some (t0 + 800) \<and>
                streak (t0 + 800) post g1 \<and> foldE handleEvent post g1 = Inr g \<and>
                winTimestamp g = Some (t0 + 800) \<and> t0 + 800 < now)) \<and>
         (\<not> zeroCount g' \<longrightarrow> gameState g' = Playing \<and> winTimestamp g' = None) \<and>
         (zeroCount g' \<and> falsy (winTimestamp g) \<longrightarrow>
            gameState g' = Playing \<and> winTimestamp g' = Some (now + 800)) \<and>
         (\<forall>t. zeroCount g' \<and> winTimestamp g = Some t \<and> t \<noteq> 0 \<and> now \<le> t \<longrightarrow>
            gameState g' = Playing \<and> winTimestamp g' = Some t) \<and>
         (\<forall>pre e post g0.
            evs = pre @ e # post \<and> runEvents pre (initialGame W H gap) = Inr g0 \<and>
            (startsMatch e g0 \<or> clearsTimer e g0) \<and> noFrame post \<longrightarrow>
            winTimestamp g = None \<and>
            (zeroCount g' \<longrightarrow> gameState g' = Playing \<and> winTimestamp g' = Some (now + 800)))"
proof -
  note fc = update_frame_cases[OF playing upd]
  have armed: "armedSince (initialGame W H gap) evs g" using run by (rule runEvents_armedSince)
  have c1: "gameState g' = Won \<longrightarrow>
            zeroCount g' \<and>
            (\<exists>pre t0 post g0 g1.
                evs = pre @ Frame t0 # post \<and>
                runEvents pre (initialGame W H gap) = Inr g0 \<and>
                gameState g0 = Playing \<and> falsy (winTimestamp g0) \<and>
                update g0 t0 = Inr g1 \<and> zeroCount g1 \<and>
                gameState g1 = Playing \<and> winTimestamp g1 = Some (t0 + 800) \<and>
                streak (t0 + 800) post g1 \<and> foldE handleEvent post g1 = Inr g \<and>
                winTimestamp g = Some (t0 + 800) \<and> t0 + 800 < now)"
  proof
    assume "gameState g' = Won"
    from fc(5)[OF this] obtain d where z: "zeroCount g'"
      and d: "winTimestamp g = Some d" "d < now" by blast
    from armed playing d(1) obtain pre t0 post g0 g1 where
      o: "evs = pre @ Frame t0 # post" "runEvents pre (initialGame W H gap) = Inr g0"
        "gameState g0 = Playing" "falsy (winTimestamp g0)"
        "update g0 t0 = Inr g1" "zeroCount g1"
        "gameState g1 = Playing" "winTimestamp g1 = Some d" "d = t0 + 800"
        "streak d post g1" "foldE handleEvent post g1 = Inr g"
      unfolding armedSince_def by blast
    from o d have "evs = pre @ Frame t0 # post \<and>
                runEvents pre (initialGame W H gap) = Inr g0 \<and>
                gameState g0 = Playing \<and> falsy (winTimestamp g0) \<and>
                update g0 t0 = Inr g1 \<and> zeroCount g1 \<and>
                gameState g1 = Playing \<and> winTimestamp g1 = Some (t0 + 800) \<and>
                streak (t0 + 800) post g1 \<and> foldE handleEvent post g1 = Inr g \<and>
                winTimestamp g = Some (t0 + 800) \<and> t0 + 800 < now"
      by simp
    with z show "zeroCount g' \<and>
            (\<exists>pre t0 post g0 g1.
                evs = pre @ Frame t0 # post \<and>
                runEvents pre (initialGame W H gap) = Inr g0 \<and>
                gameState g0 = Playing \<and> falsy (winTimestamp g0) \<and>
                update g0 t0 = Inr g1 \<and> zeroCount g1 \<and>
                gameState g1 = Playing \<and> winTimestamp g1 = Some (t0 + 800) \<and>
                streak (t0 + 800) post g1 \<and> foldE handleEvent post g1 = Inr g \<and>
                winTimestamp g = Some (t0 + 800) \<and> t0 + 800 < now)"
      by blast
  qed
  have c2: "\<not> zeroCount g' \<longrightarrow> gameState g' = Playing \<and> winTimestamp g' = None"
    using fc(2) by blast
  have c3: "zeroCount g' \<and> falsy (winTimestamp g) \<longrightarrow>
            gameState g' = Playing \<and> winTimestamp g' = Some (now + 800)"
    using fc(3) by blast
  have c4: "\<forall>t. zeroCount g' \<and> winTimestamp g = Some t \<and> t \<noteq> 0 \<and> now \<le> t \<longrightarrow>
            gameState g' = Playing \<and> winTimestamp g' = Some t"
    using fc(4) by blast
  have c5: "\<forall>pre e post g0.
            evs = pre @ e # post \<and> runEvents pre (initialGame W H gap) = Inr g0 \<and>
            (startsMatch e g0 \<or> clearsTimer e g0) \<and> noFrame post \<longrightarrow>
            winTimestamp g = None \<and>
            (zeroCount g' \<longrightarrow> gameState g' = Playing \<and> winTimestamp g' = Some (now + 800))"
  proof (intro allI impI)
    fix pre e post g0
    assume a: "evs = pre @ e # post \<and> runEvents pre (initialGame W H gap) = Inr g0 \<and>
            (startsMatch e g0 \<or> clearsTimer e g0) \<and> noFrame post"
    from run a obtain g1 where e: "handleEvent e g0 = Inr g1"
      and f: "foldE handleEvent post g1 = Inr g"
      by (auto simp: runEvents_def foldE_append split: sum.splits)
    have g1: "gameState g1 = Playing \<and> winTimestamp g1 = None"
    proof (cases "startsMatch e g0")
      case True
      then obtain px py k rnd where s: "e = PointerStart px py k rnd" "gameState g0 \<noteq> Playing"
        by (auto simp: startsMatch_def split: event.splits)
      with e handleStart_starts[OF s(2), of px py k rnd] show ?thesis by auto
    next
      case False
      with a have "clearsTimer e g0" by simp
      then obtain t where c: "e = Frame t" "gameState g0 = Playing"
        "case update g0 t of Inl err \<Rightarrow> False | Inr g' \<Rightarrow> \<not> zeroCount g'"
        by (auto simp: clearsTimer_def split: event.splits)
      from e c(1) have u: "update g0 t = Inr g1" by simp
      with c(3) have "\<not> zeroCount g1" by simp
      from update_frame_cases(2)[OF c(2) u this] show ?thesis .
    qed
    from a have "noFrame post" by simp
    from quiet_run[OF f this] g1 have n: "winTimestamp g = None" by simp
    then have "falsy (winTimestamp g)" by (simp add: falsy_def)
    with fc(3) n show "winTimestamp g = None \<and>
            (zeroCount g' \<longrightarrow> gameState g' = Playing \<and> winTimestamp g' = Some (now + 800))"
      by blast
  qed
  from c1 c2 c3 c4 c5 show ?thesis by blast
qed

theorem win_debounce_witness:
  "runEvents [PointerStart 0 0 Mouse rowRandom, Resize 400 1000]
     (initialGame 400 600 100) = Inr (rowGame 1000 None) \<and>
   startsMatch (PointerStart 0 0 Mouse rowRandom) (initialGame 400 600 100) \<and>
   noFrame [Resize 400 1000] \<and>
   update (rowGame 1000 None) 1000 = Inr (rowGame 1000 (Some 1800)) \<and>
   zeroCount (rowGame 1000 (Some 1800)) \<and>
   gameState (rowGame 1000 (Some 1800)) = Playing \<and>
   runEvents [PointerStart 0 0 Mouse rowRandom, Resize 400 1000, Frame 1000]
     (initialGame 400 600 100) = Inr (rowGame 1000 (Some 1800)) \<and>
   update (rowGame 1000 (Some 1800)) 1900 =
     Inr ((rowGame 1000 (Some 1800))\<lparr>gameState := Won, winner := Some Bottom, bottomWins := 1\<rparr>) \<and>
   (\<exists>pre t0 post g0 g1.
       [PointerStart 0 0 Mouse rowRandom, Resize 400 1000, Frame 1000] = pre @ Frame t0 # post \<and>
       runEvents pre (initialGame 400 600 100) = Inr g0 \<and>
       gameState g0 = Playing \<and> falsy (winTimestamp g0) \<and>
       update g0 t0 = Inr g1 \<and> zeroCount g1 \<and>
       gameState g1 = Playing \<and> winTimestamp g1 = Some (t0 + 800) \<and>
       streak (t0 + 800) post g1 \<and> t0 + 800 < 1900)"
proof -
  let ?a = "rowGame 1000 None"
  let ?g = "rowGame 1000 (Some 1800)"
  let ?g' = "?g\<lparr>gameState := Won, winner := Some Bottom, bottomWins := 1\<rparr>"
  have p0: "gameState ?a = Playing" and p: "gameState ?g = Playing" by (simp_all add: rowGame_def)
  have u0: "update ?a 1000 = Inr ?g"
    by (simp add: update_tall) (simp add: winCondition_def falsy_def rowGame_def)
  have u: "update ?g 1900 = Inr ?g'"
    by (simp add: update_tall) (simp add: winCondition_def falsy_def rowGame_def)
  have s: "startsMatch (PointerStart 0 0 Mouse rowRandom) (initialGame 400 600 100)"
    by (simp add: startsMatch_def initialGame_def)
  have n: "noFrame [Resize 400 1000]" by (simp add: noFrame_def)
  have e0: "runEvents [] (initialGame 400 600 100) = Inr (initialGame 400 600 100)"
    by (simp add: runEvents_def)
  have first: "gameState ?g = Playing \<and> winTimestamp ?g = Some (1000 + 800)"
    using win_debounce[OF run_tall0 p0 u0] s n e0 zeroCount_tall[of "Some 1800"]
    by (metis append_Nil)
  have w: "gameState ?g' = Won" by simp
  from win_debounce[OF run_tall p u] w
  have "\<exists>pre t0 post g0 g1.
       [PointerStart 0 0 Mouse rowRandom, Resize 400 1000, Frame 1000] = pre @ Frame t0 # post \<and>
       runEvents pre (initialGame 400 600 100) = Inr g0 \<and>
       gameState g0 = Playing \<and> falsy (winTimestamp g0) \<and>
       update g0 t0 = Inr g1 \<and> zeroCount g1 \<and>
       gameState g1 = Playing \<and> winTimestamp g1 = Some (t0 + 800) \<and>
       streak (t0 + 800) post g1 \<and> t0 + 800 < 1900"
    by blast
  with run_tall0 run_tall s n u0 u p zeroCount_tall[of "Some 1800"] first show ?thesis by blast
qed

text \<open>
  Claim C2 as stated fails where the zero count moves from one side to the other. Ten pucks
  rest in the bottom half of an 800 by 400 arena; the frame at 1000 arms the timer. The
  arena becomes 400 by 800, so all ten pucks are in the top half: the frame at 1016 sees
  the zero count of the top side lost, and the timer is still armed with 1800. The frame at
  1801 declares \<open>bottom\<close> the winner, 785 ms after the bottom side became empty.
\<close>

theorem timer_survives_side_change:
  "runEvents [Frame 1000, Resize 400 800, Frame 1016] (exampleGame 800 400 None)
     = Inr (exampleGame 400 800 (Some 1800)) \<and>
   topCount 400 tenPucks = 0 \<and> topCount 800 tenPucks = 10 \<and> bottomCount 800 tenPucks = 0 \<and>
   runEvents [Frame 1000, Resize 400 800, Frame 1016, Frame 1801] (exampleGame 800 400 None)
     = Inr ((exampleGame 400 800 (Some 1800))
              \<lparr>gameState := Won, winner := Some Bottom, bottomWins := 1\<rparr>)"
proof -
  have w1: "winCondition (exampleGame 800 400 None) 0 10 1000 = exampleGame 800 400 (Some 1800)"
    by (simp add: winCondition_def exampleGame_def)
  have r: "handleResize 400 800 (exampleGame 800 400 (Some 1800)) = exampleGame 400 800 (Some 1800)"
    by (simp add: handleResize_def exampleGame_def)
  have w2: "winCondition (exampleGame 400 800 (Some 1800)) 10 0 1016 = exampleGame 400 800 (Some 1800)"
    by (simp add: winCondition_def falsy_def exampleGame_def)
  have w3: "winCondition (exampleGame 400 800 (Some 1800)) 10 0 1801 =
      (exampleGame 400 800 (Some 1800))\<lparr>gameState := Won, winner := Some Bottom, bottomWins := 1\<rparr>"
    by (simp add: winCondition_def falsy_def exampleGame_def)
  show ?thesis
    by (simp add: runEvents_def update_landscape update_portrait w1 r w2 w3 counts_landscape
        counts_portrait)
qed

subsection \<open>Wall segments of overlapping gaps\<close>

text \<open>The variant of src/unnamed/part_003 returns proper intervals only.\<close>

lemma getWallSegments_part003_proper:
  assumes "s \<in> set (getWallSegments_part003 W st)"
  shows "seg_start s < seg_end s"
proof (cases st)
  case None
  with assms show ?thesis by (simp add: getWallSegments_part003_def)
next
  case (Some a)
  from assms obtain segs where "s \<in> set (filter (\<lambda>s. seg_end s > seg_start s) segs)"
    unfolding getWallSegments_part003_def Some Let_def option.case by blast
  then show ?thesis by simp
qed

theorem getWallSegments_part003_no_degenerate:
  "list_all (\<lambda>s. seg_start s < seg_end s) (getWallSegments_part003 W st)"
  using getWallSegments_part003_proper by (simp add: list_all_iff)

text \<open>
  \<open>getWallSegments\<close> of main.js at level 4: the middle segment runs from the left hole plus
  half a hole to the right hole minus half a hole, and is returned whatever its direction.
\<close>

lemma overlap_iff:
  fixes a b :: real
  shows "(\<bar>a - b\<bar> \<le> 100) = (max a b - 50 \<le> min a b + 50)"
  by (auto simp: max_def min_def abs_if)

lemma getOffset_Inr:
  "W \<noteq> 0 \<Longrightarrow> getOffset W now sf rf ph =
     Inr (sin (of_int now * ((15 / 10000) * (375 / W) * sf) + ph) * (W * rf))"
  by (simp add: getOffset_def jsdiv_def Let_def)

lemma getWallSegments_level4:
  fixes g :: game and now :: int
  assumes lvl: "currentLevel g = 3" and w: "width g \<noteq> 0"
  shows "\<exists>o1 o2. getOffset (width g) now (35 / 100) (35 / 100) 0 = Inr o1 \<and>
     getOffset (width g) now (65 / 100) (35 / 100) pi = Inr o2 \<and>
     getWallSegments g now =
       Inr [\<lparr>seg_start = 0, seg_end = min (width g / 2 + o1) (width g / 2 + o2) - HOLE_WIDTH / 2\<rparr>,
            \<lparr>seg_start = min (width g / 2 + o1) (width g / 2 + o2) + HOLE_WIDTH / 2,
             seg_end = max (width g / 2 + o1) (width g / 2 + o2) - HOLE_WIDTH / 2\<rparr>,
            \<lparr>seg_start = max (width g / 2 + o1) (width g / 2 + o2) + HOLE_WIDTH / 2,
             seg_end = width g\<rparr>]"
proof -
  obtain o1 where o1: "getOffset (width g) now (35 / 100) (35 / 100) 0 = Inr o1"
    using getOffset_Inr[OF w] by blast
  obtain o2 where o2: "getOffset (width g) now (65 / 100) (35 / 100) pi = Inr o2"
    using getOffset_Inr[OF w] by blast
  have lv: "currentLevel g + 1 = 4" using lvl by simp
  have "getWallSegments g now =
       Inr [\<lparr>seg_start = 0, seg_end = min (width g / 2 + o1) (width g / 2 + o2) - HOLE_WIDTH / 2\<rparr>,
            \<lparr>seg_start = min (width g / 2 + o1) (width g / 2 + o2) + HOLE_WIDTH / 2,
             seg_end = max (width g / 2 + o1) (width g / 2 + o2) - HOLE_WIDTH / 2\<rparr>,
            \<lparr>seg_start = max (width g / 2 + o1) (width g / 2 + o2) + HOLE_WIDTH / 2,
             seg_end = width g\<rparr>]"
    unfolding getWallSegments_def Let_def lv o1 o2 by simp
  with o1 o2 show ?thesis by blast
qed

lemma getWallSegments_level4_degenerate:
  fixes g :: game and now :: int
  assumes lvl: "currentLevel g = 3" and w: "width g \<noteq> 0"
  shows "\<exists>o1 o2 segs. getOffset (width g) now (35 / 100) (35 / 100) 0 = Inr o1 \<and>
     getOffset (width g) now (65 / 100) (35 / 100) pi = Inr o2 \<and>
     getWallSegments g now = Inr segs \<and> length segs = 3 \<and>
     (\<bar>o1 - o2\<bar> \<le> HOLE_WIDTH \<longleftrightarrow> seg_end (segs ! 1) \<le> seg_start (segs ! 1))"
proof -
  from getWallSegments_level4[OF lvl w, of now] obtain o1 o2 where
    o: "getOffset (width g) now (35 / 100) (35 / 100) 0 = Inr o1"
       "getOffset (width g) now (65 / 100) (35 / 100) pi = Inr o2"
    and s: "getWallSegments g now =
       Inr [\<lparr>seg_start = 0, seg_end = min (width g / 2 + o1) (width g / 2 + o2) - HOLE_WIDTH / 2\<rparr>,
            \<lparr>seg_start = min (width g / 2 + o1) (width g / 2 + o2) + HOLE_WIDTH / 2,
             seg_end = max (width g / 2 + o1) (width g / 2 + o2) - HOLE_WIDTH / 2\<rparr>,
            \<lparr>seg_start = max (width g / 2 + o1) (width g / 2 + o2) + HOLE_WIDTH / 2,
             seg_end = width g\<rparr>]"
    by blast
  have "(\<bar>o1 - o2\<bar> \<le> HOLE_WIDTH) =
        (max (width g / 2 + o1) (width g / 2 + o2) - HOLE_WIDTH / 2
           \<le> min (width g / 2 + o1) (width g / 2 + o2) + HOLE_WIDTH / 2)"
    using overlap_iff[of "width g / 2 + o1" "width g / 2 + o2"] by (simp add: HOLE_WIDTH_def)
  with o s show ?thesis by simp
qed

text \<open>Evaluation at the instant 0, where both offsets are 0 and the two gaps coincide.\<close>

lemma getOffset_at_zero: "getOffset 375 0 sf rf 0 = Inr 0" "getOffset 375 0 sf rf pi = Inr 0"
  by (simp_all add: getOffset_def jsdiv_def)

lemma getWallSegments_level4Game: "getWallSegments level4Game 0 =
     Inr [\<lparr>seg_start = 0, seg_end = 275 / 2\<rparr>,
          \<lparr>seg_start = 475 / 2, seg_end = 275 / 2\<rparr>,
          \<lparr>seg_start = 475 / 2, seg_end = 375\<rparr>]"
proof -
  have l: "currentLevel level4Game + 1 = 4" "width level4Game = 375"
    by (simp_all add: level4Game_def)
  show ?thesis
    unfolding getWallSegments_def Let_def l getOffset_at_zero by (simp add: HOLE_WIDTH_def)
qed

lemma sqrt_400: "sqrt 400 = (20::real)"
  using real_sqrt_abs2[of 20] by simp

lemma renderWalls_level4Game: "renderWalls level4Game 0 =
     Inr [BeginPath, MoveTo 0 300, LineTo (275 / 2) 300, LineTo (275 / 2) 300, Stroke,
          BeginPath, MoveTo (475 / 2) 300, LineTo (275 / 2) 300, LineTo (275 / 2) 300, Stroke,
          BeginPath, MoveTo (475 / 2) 300, LineTo 375 300, LineTo 375 300, Stroke]"
proof -
  have h: "height level4Game = 600" by (simp add: level4Game_def)
  show ?thesis unfolding renderWalls_def getWallSegments_level4Game h by simp
qed

lemma wallRect_level4Game: "wallRect 600 \<lparr>puck_id = 0, puck_x = 475 / 2, puck_y = 280, puck_vx = 0, puck_vy = 3,
        puck_color = ''#00ff00''\<rparr> \<lparr>seg_start = 475 / 2, seg_end = 275 / 2\<rparr>
    = \<lparr>puck_id = 0, puck_x = 475 / 2, puck_y = 280, puck_vx = 0, puck_vy = 3,
        puck_color = ''#00ff00''\<rparr>"
  by (simp add: wallRect_def Let_def PUCK_RADIUS_def WALL_THICKNESS_def)

lemma cap_level4Game_left: "checkCapCollision \<lparr>puck_id = 0, puck_x = 475 / 2, puck_y = 280, puck_vx = 0, puck_vy = 3,
        puck_color = ''#00ff00''\<rparr> (475 / 2) 300 10 =
     Inr \<lparr>puck_id = 0, puck_x = 475 / 2, puck_y = 275, puck_vx = 0, puck_vy = - (27 / 10),
          puck_color = ''#00ff00''\<rparr>"
  by (simp add: checkCapCollision_def jsdiv_def Let_def PUCK_RADIUS_def BOUNCE_DAMPING_def sqrt_400)

lemma cap_level4Game_right: "checkCapCollision \<lparr>puck_id = 0, puck_x = 475 / 2, puck_y = 275, puck_vx = 0, puck_vy = - (27 / 10),
          puck_color = ''#00ff00''\<rparr> (275 / 2) 300 10 =
     Inr \<lparr>puck_id = 0, puck_x = 475 / 2, puck_y = 275, puck_vx = 0, puck_vy = - (27 / 10),
          puck_color = ''#00ff00''\<rparr>"
  by (simp add: checkCapCollision_def jsdiv_def Let_def PUCK_RADIUS_def BOUNCE_DAMPING_def sqrt_less_iff_sq)

lemma segmentCollision_level4Game: "segmentCollision 375 600 \<lparr>seg_start = 475 / 2, seg_end = 275 / 2\<rparr>
       \<lparr>puck_id = 0, puck_x = 475 / 2, puck_y = 280, puck_vx = 0, puck_vy = 3,
        puck_color = ''#00ff00''\<rparr> =
     Inr \<lparr>puck_id = 0, puck_x = 475 / 2, puck_y = 275, puck_vx = 0, puck_vy = - (27 / 10),
          puck_color = ''#00ff00''\<rparr>"
  unfolding segmentCollision_def Let_def wallRect_level4Game
  by (simp add: WALL_THICKNESS_def cap_level4Game_left cap_level4Game_right)

text \<open>
  Evaluation at the instant 100 on the same arena: the offsets are between 0 and 7 and
  between -13 and 0, so the gaps overlap partly and the two ends of the inverted middle
  segment lie strictly inside the opening between the left and the right wall.
\<close>

lemma small_sin:
  fixes x :: real
  assumes "0 < x" "x \<le> 1"
  shows "0 < sin x" "sin x \<le> x"
proof -
  have "x < pi" using assms pi_ge_two by linarith
  with assms show "0 < sin x" by (simp add: sin_gt_zero)
  show "sin x \<le> x" using assms by (simp add: sin_x_le_x)
qed

lemma getOffsets_at_100:
  "\<exists>o1 o2. getOffset 375 100 (35 / 100) (35 / 100) 0 = Inr o1 \<and>
           getOffset 375 100 (65 / 100) (35 / 100) pi = Inr o2 \<and>
           0 < o1 \<and> o1 \<le> 7 \<and> o2 < 0 \<and> - 13 \<le> o2"
proof -
  have a: "getOffset 375 100 (35 / 100) (35 / 100) 0 = Inr (sin (525 / 10000) * (375 * (35 / 100)))"
    by (simp add: getOffset_def jsdiv_def Let_def)
  have b: "getOffset 375 100 (65 / 100) (35 / 100) pi = Inr (- sin (975 / 10000) * (375 * (35 / 100)))"
    by (simp add: getOffset_def jsdiv_def Let_def)
  have s1: "0 < sin (525 / 10000 :: real)" "sin (525 / 10000 :: real) \<le> 525 / 10000"
    by (rule small_sin; simp)+
  have s2: "0 < sin (975 / 10000 :: real)" "sin (975 / 10000 :: real) \<le> 975 / 10000"
    by (rule small_sin; simp)+
  have "0 < sin (525 / 10000) * (375 * (35 / 100 :: real))" using s1(1) by simp
  moreover have "sin (525 / 10000) * (375 * (35 / 100 :: real)) \<le> 7" using s1(2) by simp
  moreover have "- sin (975 / 10000) * (375 * (35 / 100 :: real)) < 0" using s2(1) by simp
  moreover have "- 13 \<le> - sin (975 / 10000) * (375 * (35 / 100 :: real))" using s2(2) by simp
  ultimately show ?thesis using a b by blast
qed

lemma getWallSegments_phantom_caps:
  "\<exists>l m r. getWallSegments level4Game 100 = Inr [l, m, r] \<and>
     seg_end m < seg_start m \<and> seg_end l < seg_end m \<and> seg_start m < seg_start r \<and>
     0 < seg_end m \<and> seg_start m < width level4Game"
proof -
  from getOffsets_at_100 obtain o1 o2 where
    o: "getOffset 375 100 (35 / 100) (35 / 100) 0 = Inr o1"
       "getOffset 375 100 (65 / 100) (35 / 100) pi = Inr o2"
    and bd: "0 < o1" "o1 \<le> 7" "o2 < 0" "- 13 \<le> o2"
    by blast
  have l: "currentLevel level4Game + 1 = 4" "width level4Game = 375"
    by (simp_all add: level4Game_def)
  have mm: "min (375 / 2 + o1) (375 / 2 + o2) = 375 / 2 + o2"
           "max (375 / 2 + o1) (375 / 2 + o2) = 375 / 2 + o1"
    using bd by simp_all
  have "getWallSegments level4Game 100 =
     Inr [\<lparr>seg_start = 0, seg_end = 375 / 2 + o2 - HOLE_WIDTH / 2\<rparr>,
          \<lparr>seg_start = 375 / 2 + o2 + HOLE_WIDTH / 2, seg_end = 375 / 2 + o1 - HOLE_WIDTH / 2\<rparr>,
          \<lparr>seg_start = 375 / 2 + o1 + HOLE_WIDTH / 2, seg_end = 375\<rparr>]"
    unfolding getWallSegments_def Let_def l o by (simp add: mm)
  then show ?thesis using bd l by (simp add: HOLE_WIDTH_def)
qed

text \<open>
  Claim C5. The wall-segment list should contain no segment with \<open>end \<le> start\<close>, and
  neither the collision step nor the renderer should process one. \<open>getWallSegments\<close> of
  main.js at level 4 with coinciding gaps (instant 0) returns the middle segment from 237.5
  back to 137.5; the renderer strokes it, and the collision step tests the caps at both of
  its ends (a puck 20 pixels above its start is pushed away and reflected). With partly
  overlapping gaps (instant 100) the ends of the inverted segment, where the collision step
  places caps, are strictly inside the opening.
\<close>

theorem getWallSegments_inverted_segment_processed:
  "getWallSegments level4Game 0 =
     Inr [\<lparr>seg_start = 0, seg_end = 275 / 2\<rparr>,
          \<lparr>seg_start = 475 / 2, seg_end = 275 / 2\<rparr>,
          \<lparr>seg_start = 475 / 2, seg_end = 375\<rparr>] \<and>
   renderWalls level4Game 0 =
     Inr [BeginPath, MoveTo 0 300, LineTo (275 / 2) 300, LineTo (275 / 2) 300, Stroke,
          BeginPath, MoveTo (475 / 2) 300, LineTo (275 / 2) 300, LineTo (275 / 2) 300, Stroke,
          BeginPath, MoveTo (475 / 2) 300, LineTo 375 300, LineTo 375 300, Stroke] \<and>
   segmentCollision 375 600 \<lparr>seg_start = 475 / 2, seg_end = 275 / 2\<rparr>
       \<lparr>puck_id = 0, puck_x = 475 / 2, puck_y = 280, puck_vx = 0, puck_vy = 3,
        puck_color = ''#00ff00''\<rparr> =
     Inr \<lparr>puck_id = 0, puck_x = 475 / 2, puck_y = 275, puck_vx = 0, puck_vy = - (27 / 10),
          puck_color = ''#00ff00''\<rparr> \<and>
   (\<exists>l m r. getWallSegments level4Game 100 = Inr [l, m, r] \<and>
      seg_end m < seg_start m \<and> seg_end l < seg_end m \<and> seg_start m < seg_start r \<and>
      0 < seg_end m \<and> seg_start m < width level4Game)"
  using getWallSegments_level4Game renderWalls_level4Game segmentCollision_level4Game
    getWallSegments_phantom_caps
  by simp

subsection \<open>Coinciding pucks\<close>

lemma run_stacked:
  "runEvents [PointerStart 0 0 Mouse rowRandom,
              PointerStart 100 150 Mouse rowRandom, PointerMove 200 400 Mouse, PointerEnd Mouse,
              PointerStart 140 150 Mouse rowRandom, PointerMove 200 500 Mouse, PointerEnd Mouse]
     (initialGame 400 600 100) = Inr stackedGame"
  by (simp add: runEvents_def startGame_row)
     (simp add: handleStart_def handleMove_def handleEnd_def rowGame_def rowPucks_def
      restPuck_def has_def findIndex_def hit_def isDragged_def PUCK_RADIUS_def
      sqrt_less_iff_sq Let_def stackedGame_def)

lemma update_stacked: "update stackedGame now = Inl NonFinite"
  by (simp add: update_def stackedGame_def rowGame_def rowPucks_def restPuck_def steps_def
      eval_nat_numeral physicsPass_def puckPhysics_def isDragged_def movePuck_def
      wallCollisions_def getWallSegments_def getObstacles_def segmentCollision_def wallRect_def
      checkCapCollision_def ballCollision_def
      PUCK_RADIUS_def HOLE_WIDTH_def WALL_THICKNESS_def BOUNCE_DAMPING_def jsdiv_def
      Let_def upt_rec sqrt_less_iff_sq)

text \<open>
  Claim C9. After every boundary, wall-segment, cap or obstacle collision, and after every
  ball-to-ball collision of pucks with different centres, the combined kinetic energy is at
  most what it was (\<open>collision_energy_nonincrease\<close>). The ball-to-ball response has no
  guard for a zero distance, unlike \<open>checkCapCollision\<close>: for two pucks with the same
  centre the normal is \<open>0 / 0\<close>, the velocities are not numbers and no energy bound holds.
  The mouse alone reaches such a state: drag puck 0 and then puck 1 across the midline at
  \<open>x = 200\<close>, where both are clamped to \<open>y = 275\<close>, and release them; the next frame fails.
\<close>

theorem ballCollision_coincident_nonfinite:
  "ballCollision (restPuck 0 200 275) (restPuck 1 200 275) = Inl NonFinite \<and>
   runEvents [PointerStart 0 0 Mouse rowRandom,
              PointerStart 100 150 Mouse rowRandom, PointerMove 200 400 Mouse, PointerEnd Mouse,
              PointerStart 140 150 Mouse rowRandom, PointerMove 200 500 Mouse, PointerEnd Mouse,
              Frame 16]
     (initialGame 400 600 100) = Inl NonFinite"
proof -
  have "runEvents ([PointerStart 0 0 Mouse rowRandom,
              PointerStart 100 150 Mouse rowRandom, PointerMove 200 400 Mouse, PointerEnd Mouse,
              PointerStart 140 150 Mouse rowRandom, PointerMove 200 500 Mouse, PointerEnd Mouse]
              @ [Frame 16]) (initialGame 400 600 100) = Inl NonFinite"
    unfolding runEvents_def foldE_append run_stacked[unfolded runEvents_def]
    by (simp add: update_stacked)
  moreover have "ballCollision (restPuck 0 200 275) (restPuck 1 200 275) = Inl NonFinite"
    by (rule ballCollision_coincident) (simp_all add: restPuck_def)
  ultimately show ?thesis by simp
qed

end
